theory Spec2Isabelle
  imports Main "HOL-Library.Sublist" "HOL-Library.AList" "HOL-Library.Multiset"
begin

section \<open>The Go library functions used by parser.go\<close>

text \<open>
  Go strings are byte sequences; \<^typ>\<open>string\<close> is a list of bytes. The functions of this
  section are those of Go's packages \<^verbatim>\<open>strings\<close>, \<^verbatim>\<open>path\<close> and \<^verbatim>\<open>path/filepath\<close> (on a
  system whose path separator is \<^verbatim>\<open>/\<close>), written after their documented behaviour.
\<close>

text \<open>\<^verbatim>\<open>strings.Contains(s, substr)\<close>: \<^verbatim>\<open>substr\<close> is within \<^verbatim>\<open>s\<close>.\<close>

definition strings_Contains :: "string \<Rightarrow> string \<Rightarrow> bool" where
  "strings_Contains s substr = sublist substr s"

text \<open>
  \<^verbatim>\<open>strings.Split(s, sep)\<close>: the substrings between the occurrences of \<^verbatim>\<open>sep\<close>, found from
  left to right; one more element than there are occurrences. An empty \<^verbatim>\<open>sep\<close> splits
  after each byte.
\<close>

function split_from :: "string \<Rightarrow> string \<Rightarrow> string \<Rightarrow> string list" where
  "split_from sep cur s =
     (if s = [] then [cur]
      else if sep \<noteq> [] \<and> prefix sep s then cur # split_from sep [] (drop (length sep) s)
      else split_from sep (cur @ [hd s]) (tl s))"
  by pat_completeness auto
termination
  by (relation "measure (\<lambda>(sep, cur, s). length s)") auto

declare split_from.simps [simp del]

definition strings_Split :: "string \<Rightarrow> string \<Rightarrow> string list" where
  "strings_Split s sep = (if sep = [] then map (\<lambda>c. [c]) s else split_from sep [] s)"

text \<open>
  \<^verbatim>\<open>strings.Replace(s, old, new, n)\<close>: the first \<^verbatim>\<open>n\<close> non-overlapping occurrences of
  \<^verbatim>\<open>old\<close>, from the left, replaced by \<^verbatim>\<open>new\<close>; all of them when \<^verbatim>\<open>n < 0\<close>. An empty
  \<^verbatim>\<open>old\<close> matches before each byte and at the end.
\<close>

function strings_Replace :: "string \<Rightarrow> string \<Rightarrow> string \<Rightarrow> int \<Rightarrow> string" where
  "strings_Replace s old new n =
     (if n = 0 then s
      else if old = [] then
        new @ (if s = [] then [] else hd s # strings_Replace (tl s) old new (n - 1))
      else if s = [] then []
      else if prefix old s then new @ strings_Replace (drop (length old) s) old new (n - 1)
      else hd s # strings_Replace (tl s) old new n)"
  by pat_completeness auto
termination
  by (relation "measure (\<lambda>(s, old, new, n). length s)") auto

declare strings_Replace.simps [simp del]

text \<open>\<^verbatim>\<open>strings.TrimSuffix(s, suffix)\<close>: \<^verbatim>\<open>s\<close> without the trailing \<^verbatim>\<open>suffix\<close>, or \<^verbatim>\<open>s\<close> itself.\<close>

definition strings_TrimSuffix :: "string \<Rightarrow> string \<Rightarrow> string" where
  "strings_TrimSuffix s suf = (if suffix suf s then take (length s - length suf) s else s)"

text \<open>\<^verbatim>\<open>strings.LastIndex(s, substr)\<close>: the index of the last occurrence, or \<open>-1\<close>.\<close>

definition strings_LastIndex :: "string \<Rightarrow> string \<Rightarrow> int" where
  "strings_LastIndex s substr =
     (case filter (\<lambda>i. prefix substr (drop i s)) (rev [0..<Suc (length s)]) of
        [] \<Rightarrow> - 1
      | i # _ \<Rightarrow> int i)"

text \<open>\<^verbatim>\<open>strings.Join(elems, sep)\<close>.\<close>

fun strings_Join :: "string list \<Rightarrow> string \<Rightarrow> string" where
  "strings_Join [] sep = []"
| "strings_Join [e] sep = e"
| "strings_Join (e # es) sep = e @ sep @ strings_Join es sep"

text \<open>
  \<^verbatim>\<open>filepath.Base(path)\<close> and \<^verbatim>\<open>path.Base(path)\<close>: the last element of the path, trailing
  slashes removed first; \<^verbatim>\<open>.\<close> for the empty path and \<^verbatim>\<open>/\<close> for a path of slashes only.
\<close>

definition filepath_Base :: "string \<Rightarrow> string" where
  "filepath_Base path =
     (if path = [] then ''.''
      else let p = rev (dropWhile (\<lambda>c. c = CHR ''/'') (rev path));
               e = rev (takeWhile (\<lambda>c. c \<noteq> CHR ''/'') (rev p))
           in if e = [] then ''/'' else e)"

text \<open>
  \<^verbatim>\<open>path.Clean(path)\<close>: the shortest equivalent path. The path is cut at its slashes;
  empty elements and \<^verbatim>\<open>.\<close> are dropped, \<^verbatim>\<open>..\<close> removes the element before it (or is dropped
  at the root, or kept at the front of a relative path).
\<close>

fun clean_elems :: "bool \<Rightarrow> string list \<Rightarrow> string list \<Rightarrow> string list" where
  "clean_elems rooted out [] = rev out"
| "clean_elems rooted out (e # es) =
     (if e = [] \<or> e = ''.'' then clean_elems rooted out es
      else if e = ''..'' then
        (case out of
           [] \<Rightarrow> if rooted then clean_elems rooted out es else clean_elems rooted [e] es
         | p # ps \<Rightarrow> if p = ''..'' then clean_elems rooted (e # out) es
                     else clean_elems rooted ps es)
      else clean_elems rooted (e # out) es)"

definition path_Clean :: "string \<Rightarrow> string" where
  "path_Clean path =
     (if path = [] then ''.''
      else let rooted = (hd path = CHR ''/'');
               body = strings_Join (clean_elems rooted [] (strings_Split path ''/'')) ''/'';
               out = (if rooted then CHR ''/'' # body else body)
           in if out = [] then ''.'' else out)"

text \<open>\<^verbatim>\<open>path.Dir(path)\<close> and \<^verbatim>\<open>filepath.Dir(path)\<close>: all but the last element, cleaned.\<close>

definition path_Dir :: "string \<Rightarrow> string" where
  "path_Dir path =
     path_Clean (rev (dropWhile (\<lambda>c. c \<noteq> CHR ''/'') (rev path)))"

section \<open>Failures\<close>

text \<open>
  \<^verbatim>\<open>log.Fatalf\<close> ends the process after printing its message, \<^verbatim>\<open>panic\<close> unwinds it; both
  are results here. \<open>Fatal\<close> carries the formatted message (without the logger's time
  stamp), \<open>Panic\<close> the message of the error, \<open>NilDereference\<close> is the run-time panic of
  reading through a nil pointer.
\<close>

datatype error = Fatal string | Panic string | NilDereference

section \<open>The directive tags\<close>

record ResourceTags =
  rt_Resource :: string
  rt_REST :: string
  rt_Strategy :: string

record GroupVersionKind =
  gvk_Group :: string
  gvk_Version :: string
  gvk_Kind :: string

record ControllerTags =
  ct_gvk :: GroupVersionKind
  ct_resource :: string

record SubresourceTags =
  st_Path :: string
  st_Kind :: string
  st_RequestKind :: string
  st_REST :: string

definition resource_tag_message :: "string \<Rightarrow> string" where
  "resource_tag_message tag =
     ''// +resource: tags must be key value pairs.  Expected '' @
     ''keys [path=<subresourcepath>] '' @
     ''Got string: ['' @ tag @ '']''"

definition controller_tag_message :: "string \<Rightarrow> string" where
  "controller_tag_message tag =
     ''// +controller: tags must be key value pairs.  Expected '' @
     ''keys [group=<group>,version=<version>,kind=<kind>,resource=<resource>] '' @
     ''Got string: ['' @ tag @ '']''"

definition subresource_tag_message :: "string \<Rightarrow> string" where
  "subresource_tag_message tag =
     ''// +subresource: tags must be key value pairs.  Expected '' @
     ''keys [request=<requestType>,rest=<restImplType>,path=<subresourcepath>] '' @
     ''Got string: ['' @ tag @ '']''"

text \<open>
  The body of each parser's \<^verbatim>\<open>for _, elem := range strings.Split(tag, ",")\<close> loop, with
  the record built so far as accumulator.
\<close>

fun ParseResourceTag_loop :: "string \<Rightarrow> string list \<Rightarrow> ResourceTags \<Rightarrow> error + ResourceTags" where
  "ParseResourceTag_loop tag [] result = Inr result"
| "ParseResourceTag_loop tag (elem # elems) result =
     (let kv = strings_Split elem ''='' in
      if length kv \<noteq> 2 then Inl (Fatal (resource_tag_message tag))
      else let value = kv ! 1 in
        ParseResourceTag_loop tag elems
          (if kv ! 0 = ''rest'' then result\<lparr>rt_REST := value\<rparr>
           else if kv ! 0 = ''path'' then result\<lparr>rt_Resource := value\<rparr>
           else if kv ! 0 = ''strategy'' then result\<lparr>rt_Strategy := value\<rparr>
           else result))"

definition ParseResourceTag :: "string \<Rightarrow> error + ResourceTags" where
  "ParseResourceTag tag =
     ParseResourceTag_loop tag (strings_Split tag '','')
       \<lparr>rt_Resource = [], rt_REST = [], rt_Strategy = []\<rparr>"

fun ParseControllerTag_loop :: "string \<Rightarrow> string list \<Rightarrow> ControllerTags \<Rightarrow> error + ControllerTags" where
  "ParseControllerTag_loop tag [] result = Inr result"
| "ParseControllerTag_loop tag (elem # elems) result =
     (let kv = strings_Split elem ''='' in
      if length kv \<noteq> 2 then Inl (Fatal (controller_tag_message tag))
      else let value = kv ! 1 in
        ParseControllerTag_loop tag elems
          (if kv ! 0 = ''group'' then result\<lparr>ct_gvk := (ct_gvk result)\<lparr>gvk_Group := value\<rparr>\<rparr>
           else if kv ! 0 = ''version'' then result\<lparr>ct_gvk := (ct_gvk result)\<lparr>gvk_Version := value\<rparr>\<rparr>
           else if kv ! 0 = ''kind'' then result\<lparr>ct_gvk := (ct_gvk result)\<lparr>gvk_Kind := value\<rparr>\<rparr>
           else if kv ! 0 = ''resource'' then result\<lparr>ct_resource := value\<rparr>
           else result))"

definition ParseControllerTag :: "string \<Rightarrow> error + ControllerTags" where
  "ParseControllerTag tag =
     ParseControllerTag_loop tag (strings_Split tag '','')
       \<lparr>ct_gvk = \<lparr>gvk_Group = [], gvk_Version = [], gvk_Kind = []\<rparr>, ct_resource = []\<rparr>"

text \<open>
  \<^verbatim>\<open>ParseSubresourceTag(c, tag)\<close> reads of the resource \<^verbatim>\<open>c\<close> only \<^verbatim>\<open>c.Resource\<close>, which is
  the parameter \<open>resource\<close> of the loop.
\<close>

fun ParseSubresourceTag_loop ::
  "string \<Rightarrow> string \<Rightarrow> string list \<Rightarrow> SubresourceTags \<Rightarrow> error + SubresourceTags" where
  "ParseSubresourceTag_loop resource tag [] result = Inr result"
| "ParseSubresourceTag_loop resource tag (elem # elems) result =
     (let kv = strings_Split elem ''='' in
      if length kv \<noteq> 2 then Inl (Fatal (subresource_tag_message tag))
      else let value = kv ! 1 in
        ParseSubresourceTag_loop resource tag elems
          (if kv ! 0 = ''request'' then result\<lparr>st_RequestKind := value\<rparr>
           else if kv ! 0 = ''rest'' then result\<lparr>st_REST := value\<rparr>
           else if kv ! 0 = ''path'' then
             result\<lparr>st_Path := strings_Replace value (resource @ ''/'') [] (- 1)\<rparr>
           else result))"

definition ParseSubresourceTag_tags :: "string \<Rightarrow> string \<Rightarrow> error + SubresourceTags" where
  "ParseSubresourceTag_tags resource tag =
     ParseSubresourceTag_loop resource tag (strings_Split tag '','')
       \<lparr>st_Path = [], st_Kind = [], st_RequestKind = [], st_REST = []\<rparr>"

section \<open>Declarations\<close>

text \<open>
  A declaration is a \<^verbatim>\<open>*types.Type\<close> of gengo. Declarations are never written to, so a
  pointer to one is the declaration itself, except where the type graph can be cyclic:
  the type of a member and the element type are references into a store of
  declarations (a list, the reference its index), and a reference outside the store is
  a nil pointer.
\<close>

type_synonym ref = nat

record Name =
  n_Package :: string
  n_Name :: string

record Member =
  m_Name :: string
  m_Embedded :: bool
  m_Type :: ref

record Type =
  t_Name :: Name
  t_CommentLines :: "string list"
  t_Members :: "Member list"
  t_Elem :: "ref option"

definition deref :: "Type list \<Rightarrow> ref \<Rightarrow> Type option" where
  "deref types r = (if r < length types then Some (types ! r) else None)"

text \<open>\<^verbatim>\<open>Name.String()\<close> and \<^verbatim>\<open>Type.String()\<close> of gengo: the name qualified by its package.\<close>

definition Name_String :: "Name \<Rightarrow> string" where
  "Name_String n = (if n_Package n = [] then n_Name n else n_Package n @ ''.'' @ n_Name n)"

definition Type_String :: "Type \<Rightarrow> string" where
  "Type_String t = Name_String (t_Name t)"

text \<open>
  The classifier predicates, the accessors and the comment helpers are functions of
  other files of the package, and \<^verbatim>\<open>IsPrimitive\<close> is a method of gengo's type: they are
  parameters here. \<open>GetTag lines name sep\<close> is \<^verbatim>\<open>Comments(lines).GetTag(name, sep)\<close>, and
  likewise \<open>GetTags\<close> and \<open>HasTag\<close>.
\<close>

record externals =
  IsAPIResource :: "Type \<Rightarrow> bool"
  IsAPISubresource :: "Type \<Rightarrow> bool"
  HasSubresource :: "Type \<Rightarrow> bool"
  IsNonNamespaced :: "Type \<Rightarrow> bool"
  GetGroup :: "Type \<Rightarrow> string"
  GetVersion :: "Type \<Rightarrow> string \<Rightarrow> string"
  GetKind :: "Type \<Rightarrow> string \<Rightarrow> string"
  GetTag :: "string list \<Rightarrow> string \<Rightarrow> string \<Rightarrow> string"
  GetTags :: "string list \<Rightarrow> string \<Rightarrow> string \<Rightarrow> string list"
  HasTag :: "string list \<Rightarrow> string \<Rightarrow> bool"
  IsPrimitive :: "Type \<Rightarrow> bool"

section \<open>The model\<close>

record APISubresource =
  sub_Domain :: string
  sub_Group :: string
  sub_Version :: string
  sub_Kind :: string
  sub_Resource :: string
  sub_Request :: string
  sub_REST :: string
  sub_Path :: string
  sub_ImportPackage :: string
  sub_RequestType :: "Type option"
  sub_RESTType :: "Type option"

text \<open>
  A Go map is an association list with distinct keys: \<^const>\<open>map_of\<close> reads it,
  \<^const>\<open>AList.update\<close> writes it, and a \<^verbatim>\<open>range\<close> loop visits it in the order of the list
  (Go fixes no order, so a property of such a loop is proved for every list).
\<close>

record APIResource =
  res_Domain :: string
  res_Group :: string
  res_Version :: string
  res_Kind :: string
  res_Resource :: string
  res_REST :: string
  res_Subresources :: "(string \<times> APISubresource) list"
  res_Type :: Type
  res_Strategy :: string
  res_StatusStrategy :: string
  res_NonNamespaced :: bool

record Field =
  f_Name :: string
  f_VersionedPackage :: string
  f_UnversionedImport :: string
  f_UnversionedType :: string

record Struct =
  s_Name :: string
  s_GenClient :: bool
  s_GenDeepCopy :: bool
  s_GenUnversioned :: bool
  s_Fields :: "Field list"

record APIVersion =
  ver_Domain :: string
  ver_Group :: string
  ver_Version :: string
  ver_Resources :: "(string \<times> APIResource) list"

record APIGroup =
  grp_Package :: string
  grp_Domain :: string
  grp_Group :: string
  grp_GroupTitle :: string
  grp_Versions :: "(string \<times> APIVersion) list"
  grp_UnversionedResources :: "(string \<times> APIResource) list"
  grp_Structs :: "Struct list"
  grp_PkgPath :: string

text \<open>
  The builder. \<open>b_Order\<close> is \<^verbatim>\<open>b.context.Order\<close>. The two resource indices hold
  \<^verbatim>\<open>*APIResource\<close> pointers and \<^verbatim>\<open>ParseIndex\<close> writes through such a pointer after it
  has stored it, so the resources live in a store, \<open>b_resources\<close>, and the indices hold
  references into it.
\<close>

type_synonym 'a index3 = "(string \<times> (string \<times> (string \<times> 'a) list) list) list"

record APIsBuilder =
  b_Order :: "Type list"
  b_Domain :: string
  b_resources :: "APIResource list"
  ByGroupKindVersion :: "ref index3"
  ByGroupVersionKind :: "ref index3"
  SubByGroupVersionKind :: "Type index3"

text \<open>\<^verbatim>\<open>m[k]\<close> on a map of maps: the inner map, or the nil (empty) map.\<close>

definition index_map :: "(string \<times> (string \<times> 'a) list) list \<Rightarrow> string \<Rightarrow> (string \<times> 'a) list" where
  "index_map m k = (case map_of m k of None \<Rightarrow> [] | Some inner \<Rightarrow> inner)"

text \<open>\<^verbatim>\<open>if _, f := m[k]; !f { m[k] = map[...]...{} }\<close>\<close>

definition ensure :: "string \<Rightarrow> (string \<times> (string \<times> 'a) list) list \<Rightarrow> (string \<times> (string \<times> 'a) list) list" where
  "ensure k m = (if map_of m k = None then AList.update k [] m else m)"

text \<open>The two such checks before a store, on \<^verbatim>\<open>m[a]\<close> and then on \<^verbatim>\<open>m[a][b]\<close>.\<close>

definition ensure2 :: "string \<Rightarrow> string \<Rightarrow> 'a index3 \<Rightarrow> 'a index3" where
  "ensure2 a b m = (let m1 = ensure a m in AList.update a (ensure b (index_map m1 a)) m1)"

text \<open>\<^verbatim>\<open>m[a][b][c] = x\<close>\<close>

definition put3 :: "string \<Rightarrow> string \<Rightarrow> string \<Rightarrow> 'a \<Rightarrow> 'a index3 \<Rightarrow> 'a index3" where
  "put3 a b c x m =
     AList.update a (AList.update b (AList.update c x (index_map (index_map m a) b)) (index_map m a)) m"

text \<open>\<^verbatim>\<open>m[a][b][c]\<close> read with its presence flag.\<close>

definition lookup3 :: "'a index3 \<Rightarrow> string \<Rightarrow> string \<Rightarrow> string \<Rightarrow> 'a option" where
  "lookup3 m a b c = map_of (index_map (index_map m a) b) c"

section \<open>Subresources\<close>

definition ParseSubresourceTag :: "APIResource \<Rightarrow> string \<Rightarrow> error + SubresourceTags" where
  "ParseSubresourceTag c tag = ParseSubresourceTag_tags (res_Resource c) tag"

definition IsInPackage :: "SubresourceTags \<Rightarrow> bool" where
  "IsInPackage tags = (\<not> strings_Contains (st_RequestKind tags) ''.'')"

text \<open>
  \<^verbatim>\<open>tags.RequestKind[:last]\<close> panics when \<^verbatim>\<open>last\<close> is \<open>-1\<close>; the caller asks for the name
  and import only when the request kind contains a dot.
\<close>

definition GetNameAndImport :: "SubresourceTags \<Rightarrow> error + (string \<times> string)" where
  "GetNameAndImport tags =
     (let last = strings_LastIndex (st_RequestKind tags) ''.'' in
      if last < 0 then Inl (Panic ''runtime error: slice bounds out of range [:-1]'')
      else let importPackage = take (nat last) (st_RequestKind tags);
               RequestKind = drop (nat (last + 1)) (st_RequestKind tags);
               pkg = filepath_Base importPackage
           in Inr (strings_Join [pkg, RequestKind] ''.'', importPackage))"

text \<open>
  \<^verbatim>\<open>%v\<close> of a \<^verbatim>\<open>*APISubresource\<close>: the fields in order between \<^verbatim>\<open>&{\<close> and \<^verbatim>\<open>}\<close>, a nil
  pointer as \<^verbatim>\<open><nil>\<close>.
\<close>

definition fmt_Type_ptr :: "Type option \<Rightarrow> string" where
  "fmt_Type_ptr p = (case p of None \<Rightarrow> ''<nil>'' | Some t \<Rightarrow> Type_String t)"

definition fmt_APISubresource :: "APISubresource \<Rightarrow> string" where
  "fmt_APISubresource v =
     ''&{'' @ sub_Domain v @ '' '' @ sub_Group v @ '' '' @ sub_Version v @ '' '' @
     sub_Kind v @ '' '' @ sub_Resource v @ '' '' @ sub_Request v @ '' '' @ sub_REST v @ '' '' @
     sub_Path v @ '' '' @ sub_ImportPackage v @ '' '' @ fmt_Type_ptr (sub_RequestType v) @ '' '' @
     fmt_Type_ptr (sub_RESTType v) @ ''}''"

definition duplicate_path_message :: "string \<Rightarrow> APISubresource \<Rightarrow> string \<Rightarrow> string" where
  "duplicate_path_message path v subresource =
     ''Multiple subresources registered for path '' @ path @ '': '' @
     fmt_APISubresource v @ '' '' @ subresource"

text \<open>
  The body of the loop of \<^verbatim>\<open>GetSubresources\<close> up to the duplicate check: the descriptor
  \<^verbatim>\<open>sr\<close> of one directive.
\<close>

definition GetSubresources_descriptor :: "APIsBuilder \<Rightarrow> APIResource \<Rightarrow> string \<Rightarrow> error + APISubresource" where
  "GetSubresources_descriptor b c subresource =
     (case ParseSubresourceTag c subresource of
        Inl e \<Rightarrow> Inl e
      | Inr tags \<Rightarrow>
          let sr = \<lparr>sub_Domain = b_Domain b, sub_Group = res_Group c, sub_Version = res_Version c,
                    sub_Kind = st_Kind tags, sub_Resource = res_Resource c,
                    sub_Request = st_RequestKind tags, sub_REST = st_REST tags,
                    sub_Path = st_Path tags, sub_ImportPackage = [],
                    sub_RequestType = None, sub_RESTType = None\<rparr>
          in if \<not> IsInPackage tags then
               (case GetNameAndImport tags of
                  Inl e \<Rightarrow> Inl e
                | Inr (request, importPackage) \<Rightarrow>
                    Inr (sr\<lparr>sub_Request := request, sub_ImportPackage := importPackage\<rparr>))
             else Inr sr)"

fun GetSubresources_loop ::
  "APIsBuilder \<Rightarrow> APIResource \<Rightarrow> string list \<Rightarrow> (string \<times> APISubresource) list \<Rightarrow>
   error + (string \<times> APISubresource) list" where
  "GetSubresources_loop b c [] r = Inr r"
| "GetSubresources_loop b c (subresource # subresources) r =
     (case GetSubresources_descriptor b c subresource of
        Inl e \<Rightarrow> Inl e
      | Inr sr \<Rightarrow>
          (case map_of r (sub_Path sr) of
             Some v \<Rightarrow> Inl (Fatal (duplicate_path_message (sub_Path sr) v subresource))
           | None \<Rightarrow> GetSubresources_loop b c subresources (AList.update (sub_Path sr) sr r)))"

definition GetSubresourceTags :: "externals \<Rightarrow> Type \<Rightarrow> string list" where
  "GetSubresourceTags X c = GetTags X (t_CommentLines c) ''subresource'' '':''"

definition GetSubresources :: "externals \<Rightarrow> APIsBuilder \<Rightarrow> APIResource \<Rightarrow> error + (string \<times> APISubresource) list" where
  "GetSubresources X b c =
     (let r = [];
          subresources = GetSubresourceTags X (res_Type c)
      in if length subresources = 0 then Inr r
         else GetSubresources_loop b c subresources r)"

section \<open>The index\<close>

definition GetResourceTag :: "externals \<Rightarrow> Type \<Rightarrow> error + string" where
  "GetResourceTag X c =
     (let resource = GetTag X (t_CommentLines c) ''resource'' '':'' in
      if length resource = 0 then
        Inl (Panic (''Must specify +resource comment for type '' @ Name_String (t_Name c)))
      else Inr resource)"

text \<open>
  One turn of the loop of \<^verbatim>\<open>ParseIndex\<close> over \<^verbatim>\<open>b.context.Order\<close>. The resource \<^verbatim>\<open>r\<close> is
  a local value until it is stored in the indices; there it gets its place in the store,
  and the subresources are written to that place afterwards.
\<close>

definition ParseIndex_step :: "externals \<Rightarrow> APIsBuilder \<Rightarrow> Type \<Rightarrow> error + APIsBuilder" where
  "ParseIndex_step X b c =
     (let b1 = (if IsAPISubresource X c then
                  let group = GetGroup X c;
                      version = GetVersion X c group;
                      kind = GetKind X c group
                  in b\<lparr>SubByGroupVersionKind :=
                         put3 group version kind c (ensure2 group version (SubByGroupVersionKind b))\<rparr>
                else b)
      in if \<not> IsAPIResource X c then Inr b1
         else
           let r0 = \<lparr>res_Domain = [], res_Group = [], res_Version = [], res_Kind = [],
                     res_Resource = [], res_REST = [], res_Subresources = [], res_Type = c,
                     res_Strategy = [], res_StatusStrategy = [],
                     res_NonNamespaced = IsNonNamespaced X c\<rparr>;
               r1 = r0\<lparr>res_Group := GetGroup X c\<rparr>;
               r2 = r1\<lparr>res_Version := GetVersion X c (res_Group r1)\<rparr>;
               r3 = r2\<lparr>res_Kind := GetKind X c (res_Group r2)\<rparr>;
               r4 = r3\<lparr>res_Domain := b_Domain b1\<rparr>
           in case GetResourceTag X c of
                Inl e \<Rightarrow> Inl e
              | Inr tag \<Rightarrow>
                 (case ParseResourceTag tag of
                    Inl e \<Rightarrow> Inl e
                  | Inr rt \<Rightarrow>
                     let r5 = r4\<lparr>res_Resource := rt_Resource rt, res_REST := rt_REST rt,
                                 res_Strategy := rt_Strategy rt\<rparr>;
                         r6 = (if length (res_Strategy r5) = 0
                               then r5\<lparr>res_Strategy := res_Group r5 @ ''.'' @ res_Kind r5 @ ''Strategy''\<rparr>
                               else r5);
                         r7 = r6\<lparr>res_StatusStrategy := strings_TrimSuffix (res_Strategy r6) ''Strategy''\<rparr>;
                         r = r7\<lparr>res_StatusStrategy := res_StatusStrategy r7 @ ''StatusStrategy''\<rparr>;
                         p = length (b_resources b1);
                         b2 = b1\<lparr>b_resources := b_resources b1 @ [r],
                                 ByGroupKindVersion :=
                                   put3 (res_Group r) (res_Kind r) (res_Version r) p
                                     (ensure2 (res_Group r) (res_Kind r) (ByGroupKindVersion b1)),
                                 ByGroupVersionKind :=
                                   put3 (res_Group r) (res_Version r) (res_Kind r) p
                                     (ensure2 (res_Group r) (res_Version r) (ByGroupVersionKind b1))\<rparr>
                     in if \<not> HasSubresource X c then Inr b2
                        else
                          (case GetSubresources X b2 (r\<lparr>res_Type := c\<rparr>) of
                             Inl e \<Rightarrow> Inl e
                           | Inr subresources \<Rightarrow>
                               Inr (b2\<lparr>b_resources :=
                                         (b_resources b2)[p := r\<lparr>res_Type := c,
                                                                 res_Subresources := subresources\<rparr>]\<rparr>))))"

fun ParseIndex_loop :: "externals \<Rightarrow> Type list \<Rightarrow> APIsBuilder \<Rightarrow> error + APIsBuilder" where
  "ParseIndex_loop X [] b = Inr b"
| "ParseIndex_loop X (c # cs) b =
     (case ParseIndex_step X b c of Inl e \<Rightarrow> Inl e | Inr b' \<Rightarrow> ParseIndex_loop X cs b')"

definition ParseIndex :: "externals \<Rightarrow> APIsBuilder \<Rightarrow> error + APIsBuilder" where
  "ParseIndex X b =
     ParseIndex_loop X (b_Order b)
       (b\<lparr>ByGroupVersionKind := [], ByGroupKindVersion := [], SubByGroupVersionKind := []\<rparr>)"

section \<open>Structs and fields\<close>

definition meta_v1 :: string where
  "meta_v1 = ''k8s.io/apimachinery/pkg/apis/meta/v1''"

text \<open>
  The \<^verbatim>\<open>if !samepkg { ... }\<close> block of \<^verbatim>\<open>DoType\<close> for the member type \<open>mt\<close>: the new
  \<^verbatim>\<open>(uImport, uType)\<close>. The \<^verbatim>\<open>fmt.Printf\<close> of its default branch writes to the standard
  output only and is left out.
\<close>

definition DoType_unversioned ::
  "Type list \<Rightarrow> Type \<Rightarrow> string \<Rightarrow> string \<Rightarrow> string \<Rightarrow> error + (string \<times> string)" where
  "DoType_unversioned types mt base uImport uType =
     (let parts = strings_Split base ''.'' in
      if length parts > 1 then
        (if n_Package (t_Name mt) = meta_v1 then
           Inr (''metav1 '' @ [CHR 0x22] @ meta_v1 @ [CHR 0x22], ''metav1.'' @ parts ! 1)
         else
           (case (case t_Elem mt of
                    None \<Rightarrow> Some (mt, False)
                  | Some e \<Rightarrow> map_option (\<lambda>t. (t, True)) (deref types e)) of
              None \<Rightarrow> Inl NilDereference
            | Some (t, hasElem) \<Rightarrow>
                let uImportName = filepath_Base (path_Dir (n_Package (t_Name t)));
                    uImport1 = path_Dir (n_Package (t_Name t));
                    uType1 = uImportName @ ''.'' @ n_Name (t_Name t);
                    uType2 = (if hasElem then
                                strings_Replace
                                  (strings_Replace (Type_String mt) (path_Dir uImport1 @ ''/'') [] 1)
                                  (''/'' @ filepath_Base (n_Package (t_Name t))) [] 1
                              else uType1)
                in Inr (uImport1, uType2)))
      else Inr (uImport, uType))"

text \<open>
  The loop of \<^verbatim>\<open>DoType\<close> over \<^verbatim>\<open>t.Members\<close>, with the struct \<^verbatim>\<open>s\<close> and the list
  \<^verbatim>\<open>remaining\<close> built so far.
\<close>

fun DoType_members ::
  "externals \<Rightarrow> Type list \<Rightarrow> Type \<Rightarrow> Member list \<Rightarrow> Struct \<Rightarrow> Type list \<Rightarrow>
   error + (Struct \<times> Type list)" where
  "DoType_members X types t [] s remaining = Inr (s, remaining)"
| "DoType_members X types t (member # members) s remaining =
     (case deref types (m_Type member) of
        None \<Rightarrow> Inl NilDereference
      | Some mt \<Rightarrow>
          let memberGroup = GetGroup X mt;
              uType = n_Name (t_Name mt);
              memberName = m_Name member;
              uImport = [];
              base = filepath_Base (Type_String mt);
              samepkg = (n_Package (t_Name t) = n_Package (t_Name mt))
          in (case (if \<not> samepkg then DoType_unversioned types mt base uImport uType
                    else Inr (uImport, uType)) of
                Inl e \<Rightarrow> Inl e
              | Inr (uImport', uType') \<Rightarrow>
                  let memberName' = (if m_Embedded member then [] else memberName);
                      s' = s\<lparr>s_Fields := s_Fields s @
                             [\<lparr>f_Name = memberName',
                               f_VersionedPackage = n_Package (t_Name mt),
                               f_UnversionedImport = uImport',
                               f_UnversionedType = uType'\<rparr>]\<rparr>;
                      remaining' = (if \<not> IsPrimitive X mt \<and> memberGroup = GetGroup X t
                                    then remaining @ [mt] else remaining)
                  in DoType_members X types t members s' remaining'))"

text \<open>The receiver \<^verbatim>\<open>apigroup\<close> of \<^verbatim>\<open>DoType\<close> is not read by it.\<close>

definition DoType :: "externals \<Rightarrow> Type list \<Rightarrow> Type \<Rightarrow> error + (Struct \<times> Type list)" where
  "DoType X types t =
     (let remaining = [];
          s = \<lparr>s_Name = n_Name (t_Name t), s_GenClient = False, s_GenDeepCopy = False,
               s_GenUnversioned = True, s_Fields = []\<rparr>;
          s1 = (if list_ex (\<lambda>c. strings_Contains c ''+genregister:unversioned=false'')
                     (t_CommentLines t)
                then s\<lparr>s_GenUnversioned := False\<rparr> else s)
      in DoType_members X types t (t_Members t) s1 remaining)"

definition GenClient :: "externals \<Rightarrow> Type \<Rightarrow> bool" where
  "GenClient X c = (length (GetTag X (t_CommentLines c) ''resource'' '':'') > 0)"

definition GenDeepCopy :: "externals \<Rightarrow> Type \<Rightarrow> bool" where
  "GenDeepCopy X c = HasTag X (t_CommentLines c) ''subresource-request''"

text \<open>
  Popping the work-list: \<^verbatim>\<open>remaining[0] = remaining[len(remaining)-1]\<close>, then
  \<^verbatim>\<open>remaining = remaining[:len(remaining)-1]\<close>.
\<close>

definition pop_rest :: "'a list \<Rightarrow> 'a list" where
  "pop_rest remaining = butlast (remaining[0 := remaining ! (length remaining - 1)])"

text \<open>
  One turn of the work-list loop for a type not yet done: the struct
  \<^verbatim>\<open>result\<close> with its flags, and the types found.
\<close>

definition ParseStructs_visit :: "externals \<Rightarrow> Type list \<Rightarrow> Type \<Rightarrow> error + (Struct \<times> Type list)" where
  "ParseStructs_visit X types next =
     (case DoType X types next of
        Inl e \<Rightarrow> Inl e
      | Inr (result, additionalTypes) \<Rightarrow>
          let result1 = (if GenClient X next
                         then result\<lparr>s_GenClient := True, s_GenDeepCopy := True\<rparr> else result);
              result2 = (if GenDeepCopy X next then result1\<lparr>s_GenDeepCopy := True\<rparr> else result1)
          in Inr (result2, additionalTypes))"

text \<open>
  The loop \<^verbatim>\<open>for len(remaining) > 0\<close>. It is defined without a termination argument:
  \<open>None\<close> stands for a loop that does not end.
\<close>

partial_function (option) ParseStructs_loop ::
  "externals \<Rightarrow> Type list \<Rightarrow> Type list \<Rightarrow> string set \<Rightarrow> Struct list \<Rightarrow> (error + Struct list) option" where
  "ParseStructs_loop X types remaining done structs =
     (if length remaining > 0 then
        if n_Name (t_Name (remaining ! 0)) \<in> done then
          ParseStructs_loop X types (pop_rest remaining) done structs
        else
          (case ParseStructs_visit X types (remaining ! 0) of
             Inl e \<Rightarrow> Some (Inl e)
           | Inr (result, additionalTypes) \<Rightarrow>
               ParseStructs_loop X types (pop_rest remaining @ additionalTypes)
                 (insert (n_Name (t_Name (remaining ! 0))) done) (structs @ [result]))
      else Some (Inr structs))"

declare ParseStructs_loop.simps [code]

text \<open>The types the loop starts from: those of the group's resources, then the
  subresource types recorded for the group.\<close>

definition ParseStructs_seed :: "APIsBuilder \<Rightarrow> APIGroup \<Rightarrow> Type list" where
  "ParseStructs_seed b apigroup =
     concat (map (\<lambda>(_, version). map (\<lambda>(_, resource). res_Type resource) (ver_Resources version))
               (grp_Versions apigroup)) @
     concat (map (\<lambda>(_, version). map (\<lambda>(_, kind). kind) version)
               (index_map (SubByGroupVersionKind b) (grp_Group apigroup)))"

definition ParseStructs ::
  "externals \<Rightarrow> Type list \<Rightarrow> APIsBuilder \<Rightarrow> APIGroup \<Rightarrow> (error + APIGroup) option" where
  "ParseStructs X types b apigroup =
     (case ParseStructs_loop X types (ParseStructs_seed b apigroup) {} (grp_Structs apigroup) of
        None \<Rightarrow> None
      | Some (Inl e) \<Rightarrow> Some (Inl e)
      | Some (Inr structs) \<Rightarrow> Some (Inr (apigroup\<lparr>grp_Structs := structs\<rparr>)))"

text \<open>The path that a subresource directive resolves to (empty when it has no descriptor).\<close>

definition resolved_path :: "APIsBuilder \<Rightarrow> APIResource \<Rightarrow> string \<Rightarrow> string" where
  "resolved_path b c subresource =
     (case GetSubresources_descriptor b c subresource of Inl e \<Rightarrow> [] | Inr sr \<Rightarrow> sub_Path sr)"

text \<open>
  The resource that \<^verbatim>\<open>ParseIndex\<close> has built for the resource declaration \<open>c\<close> with the
  parsed tag \<open>rt\<close> when it stores it in the indices, written as one record.
\<close>

definition ParseIndex_resource :: "externals \<Rightarrow> string \<Rightarrow> Type \<Rightarrow> ResourceTags \<Rightarrow> APIResource" where
  "ParseIndex_resource X domain c rt =
     (let group = GetGroup X c;
          kind = GetKind X c group;
          strategy = (if rt_Strategy rt = [] then group @ ''.'' @ kind @ ''Strategy''
                      else rt_Strategy rt)
      in \<lparr>res_Domain = domain, res_Group = group, res_Version = GetVersion X c group,
          res_Kind = kind, res_Resource = rt_Resource rt, res_REST = rt_REST rt,
          res_Subresources = [], res_Type = c, res_Strategy = strategy,
          res_StatusStrategy = strings_TrimSuffix strategy ''Strategy'' @ ''StatusStrategy'',
          res_NonNamespaced = IsNonNamespaced X c\<rparr>)"

text \<open>The declaration \<open>c\<close> is an API resource of group \<open>g\<close>, version \<open>v\<close> and kind \<open>k\<close>.\<close>

definition maps_to :: "externals \<Rightarrow> string \<Rightarrow> string \<Rightarrow> string \<Rightarrow> Type \<Rightarrow> bool" where
  "maps_to X g v k c =
     (IsAPIResource X c \<and> GetGroup X c = g \<and> GetVersion X c (GetGroup X c) = v \<and>
      GetKind X c (GetGroup X c) = k)"

section \<open>Sample inputs\<close>

text \<open>
  Collaborators and declarations on which the theorems are run: comment tags of the
  form \<^verbatim>\<open>+name:value\<close>, the group and version read off the package path, and a store of
  four declarations.
\<close>

definition sample_GetTags :: "string list \<Rightarrow> string \<Rightarrow> string \<Rightarrow> string list" where
  "sample_GetTags lines name sep =
     map (drop (length (''+'' @ name @ sep))) (filter (prefix (''+'' @ name @ sep)) lines)"

definition sample_externals :: externals where
  "sample_externals =
     \<lparr>IsAPIResource = (\<lambda>t. sample_GetTags (t_CommentLines t) ''resource'' '':'' \<noteq> []),
      IsAPISubresource = (\<lambda>t. list_ex (prefix ''+subresource-request'') (t_CommentLines t)),
      HasSubresource = (\<lambda>t. sample_GetTags (t_CommentLines t) ''subresource'' '':'' \<noteq> []),
      IsNonNamespaced = (\<lambda>t. False),
      GetGroup = (\<lambda>t. filepath_Base (path_Dir (n_Package (t_Name t)))),
      GetVersion = (\<lambda>t group. filepath_Base (n_Package (t_Name t))),
      GetKind = (\<lambda>t group. n_Name (t_Name t)),
      GetTag = (\<lambda>lines name sep. case sample_GetTags lines name sep of [] \<Rightarrow> [] | v # _ \<Rightarrow> v),
      GetTags = sample_GetTags,
      HasTag = (\<lambda>lines name. list_ex (prefix (''+'' @ name)) lines),
      IsPrimitive = (\<lambda>t. n_Package (t_Name t) = [])\<rparr>"

definition Widget :: Type where
  "Widget =
     \<lparr>t_Name = \<lparr>n_Package = ''example.com/apis/core/v1'', n_Name = ''Widget''\<rparr>,
      t_CommentLines = [''+resource:path=widgets,strategy=core.WidgetStrategy'',
                        ''+subresource:request=ScaleRequest,path=widgets/scale,rest=ScaleREST''],
      t_Members = [\<lparr>m_Name = ''Status'', m_Embedded = False, m_Type = 1\<rparr>,
                   \<lparr>m_Name = ''ObjectMeta'', m_Embedded = True, m_Type = 2\<rparr>],
      t_Elem = None\<rparr>"

definition WidgetStatus :: Type where
  "WidgetStatus =
     \<lparr>t_Name = \<lparr>n_Package = ''example.com/apis/core/v1'', n_Name = ''WidgetStatus''\<rparr>,
      t_CommentLines = [],
      t_Members = [\<lparr>m_Name = ''Replicas'', m_Embedded = False, m_Type = 3\<rparr>,
                   \<lparr>m_Name = ''Owner'', m_Embedded = False, m_Type = 0\<rparr>],
      t_Elem = None\<rparr>"

definition ObjectMeta :: Type where
  "ObjectMeta =
     \<lparr>t_Name = \<lparr>n_Package = meta_v1, n_Name = ''ObjectMeta''\<rparr>,
      t_CommentLines = [],
      t_Members = [\<lparr>m_Name = ''Generation'', m_Embedded = False, m_Type = 3\<rparr>],
      t_Elem = None\<rparr>"

definition int_type :: Type where
  "int_type =
     \<lparr>t_Name = \<lparr>n_Package = [], n_Name = ''int''\<rparr>,
      t_CommentLines = [], t_Members = [], t_Elem = None\<rparr>"

definition sample_types :: "Type list" where
  "sample_types = [Widget, WidgetStatus, ObjectMeta, int_type]"

text \<open>A declaration whose metadata member comes before its same-package member.\<close>

definition Gizmo :: Type where
  "Gizmo =
     \<lparr>t_Name = \<lparr>n_Package = ''example.com/apis/core/v1'', n_Name = ''Gizmo''\<rparr>,
      t_CommentLines = [],
      t_Members = [\<lparr>m_Name = ''ObjectMeta'', m_Embedded = True, m_Type = 2\<rparr>,
                   \<lparr>m_Name = ''Status'', m_Embedded = False, m_Type = 1\<rparr>],
      t_Elem = None\<rparr>"

text \<open>A second declaration of the kind \<^verbatim>\<open>Widget\<close> in the same package, with another tag.\<close>

definition Widget2 :: Type where
  "Widget2 = Widget\<lparr>t_CommentLines := [''+resource:path=widgets2,rest=WidgetREST'']\<rparr>"

text \<open>A declaration with two subresource directives that resolve to the path \<^verbatim>\<open>scale\<close>.\<close>

definition Gadget :: Type where
  "Gadget =
     \<lparr>t_Name = \<lparr>n_Package = ''example.com/apis/core/v1'', n_Name = ''Gadget''\<rparr>,
      t_CommentLines = [''+resource:path=gadgets'',
                        ''+subresource:request=ScaleRequest,path=gadgets/scale,rest=ScaleREST'',
                        ''+subresource:request=k8s.io/api/autoscaling/v1.Scale,path=scale,rest=OtherREST''],
      t_Members = [], t_Elem = None\<rparr>"

definition sample_builder :: APIsBuilder where
  "sample_builder =
     \<lparr>b_Order = [Widget, Widget2, WidgetStatus], b_Domain = ''example.com'', b_resources = [],
      ByGroupKindVersion = [], ByGroupVersionKind = [], SubByGroupVersionKind = []\<rparr>"

definition sample_resource :: "Type \<Rightarrow> string \<Rightarrow> APIResource" where
  "sample_resource t resource =
     \<lparr>res_Domain = ''example.com'', res_Group = ''core'', res_Version = ''v1'',
      res_Kind = n_Name (t_Name t), res_Resource = resource, res_REST = [],
      res_Subresources = [], res_Type = t, res_Strategy = [], res_StatusStrategy = [],
      res_NonNamespaced = False\<rparr>"

section \<open>Properties of the tag parsers\<close>

lemma ParseResourceTag_loop_malformed:
  "\<exists>elem\<in>set elems. length (strings_Split elem ''='') \<noteq> 2 \<Longrightarrow>
   ParseResourceTag_loop tag elems r = Inl (Fatal (resource_tag_message tag))"
  by (induction elems arbitrary: r) (auto simp: Let_def)

lemma ParseControllerTag_loop_malformed:
  "\<exists>elem\<in>set elems. length (strings_Split elem ''='') \<noteq> 2 \<Longrightarrow>
   ParseControllerTag_loop tag elems r = Inl (Fatal (controller_tag_message tag))"
  by (induction elems arbitrary: r) (auto simp: Let_def)

lemma ParseSubresourceTag_loop_malformed:
  "\<exists>elem\<in>set elems. length (strings_Split elem ''='') \<noteq> 2 \<Longrightarrow>
   ParseSubresourceTag_loop res tag elems r = Inl (Fatal (subresource_tag_message tag))"
  by (induction elems arbitrary: r) (auto simp: Let_def)

lemma ParseResourceTag_loop_wellformed:
  "\<forall>elem\<in>set elems. length (strings_Split elem ''='') = 2 \<Longrightarrow>
   \<exists>r'. ParseResourceTag_loop tag elems r = Inr r'"
  by (induction elems arbitrary: r) (auto simp: Let_def)

lemma ParseControllerTag_loop_wellformed:
  "\<forall>elem\<in>set elems. length (strings_Split elem ''='') = 2 \<Longrightarrow>
   \<exists>r'. ParseControllerTag_loop tag elems r = Inr r'"
  by (induction elems arbitrary: r) (auto simp: Let_def)

lemma ParseSubresourceTag_loop_wellformed:
  "\<forall>elem\<in>set elems. length (strings_Split elem ''='') = 2 \<Longrightarrow>
   \<exists>r'. ParseSubresourceTag_loop res tag elems r = Inr r'"
  by (induction elems arbitrary: r) (auto simp: Let_def)

lemma resource_tag_message_contains:
  "strings_Contains (resource_tag_message tag) ''tags must be key value pairs''"
  "strings_Contains (resource_tag_message tag) tag"
proof -
  have "resource_tag_message tag =
        ''// +resource: '' @ ''tags must be key value pairs'' @
        (''.  Expected keys [path=<subresourcepath>] Got string: ['' @ tag @ '']'')"
    by (simp add: resource_tag_message_def)
  then show "strings_Contains (resource_tag_message tag) ''tags must be key value pairs''"
    unfolding strings_Contains_def by (metis sublist_appendI)
  have "resource_tag_message tag =
        (''// +resource: tags must be key value pairs.  Expected '' @
         ''keys [path=<subresourcepath>] '' @ ''Got string: ['') @ tag @ '']''"
    by (simp add: resource_tag_message_def)
  then show "strings_Contains (resource_tag_message tag) tag"
    unfolding strings_Contains_def by (metis sublist_appendI)
qed

lemma controller_tag_message_contains:
  "strings_Contains (controller_tag_message tag) ''tags must be key value pairs''"
  "strings_Contains (controller_tag_message tag) tag"
proof -
  have "controller_tag_message tag =
        ''// +controller: '' @ ''tags must be key value pairs'' @
        (''.  Expected keys [group=<group>,version=<version>,kind=<kind>,resource=<resource>] Got string: ['' @ tag @ '']'')"
    by (simp add: controller_tag_message_def)
  then show "strings_Contains (controller_tag_message tag) ''tags must be key value pairs''"
    unfolding strings_Contains_def by (metis sublist_appendI)
  have "controller_tag_message tag =
        (''// +controller: tags must be key value pairs.  Expected '' @
         ''keys [group=<group>,version=<version>,kind=<kind>,resource=<resource>] '' @
         ''Got string: ['') @ tag @ '']''"
    by (simp add: controller_tag_message_def)
  then show "strings_Contains (controller_tag_message tag) tag"
    unfolding strings_Contains_def by (metis sublist_appendI)
qed

lemma subresource_tag_message_contains:
  "strings_Contains (subresource_tag_message tag) ''tags must be key value pairs''"
  "strings_Contains (subresource_tag_message tag) tag"
proof -
  have "subresource_tag_message tag =
        ''// +subresource: '' @ ''tags must be key value pairs'' @
        (''.  Expected keys [request=<requestType>,rest=<restImplType>,path=<subresourcepath>] Got string: ['' @ tag @ '']'')"
    by (simp add: subresource_tag_message_def)
  then show "strings_Contains (subresource_tag_message tag) ''tags must be key value pairs''"
    unfolding strings_Contains_def by (metis sublist_appendI)
  have "subresource_tag_message tag =
        (''// +subresource: tags must be key value pairs.  Expected '' @
         ''keys [request=<requestType>,rest=<restImplType>,path=<subresourcepath>] '' @
         ''Got string: ['') @ tag @ '']''"
    by (simp add: subresource_tag_message_def)
  then show "strings_Contains (subresource_tag_message tag) tag"
    unfolding strings_Contains_def by (metis sublist_appendI)
qed

text \<open>
  C5. Each of the three tag parsers, given a tag one of whose comma-separated elements
  does not split on \<^verbatim>\<open>=\<close> into exactly two parts, fails fatally, and the message holds
  the words \<^verbatim>\<open>tags must be key value pairs\<close> and the raw tag; given a tag all of whose
  elements split into exactly two parts, each parser returns a record.
\<close>

theorem tag_parsers_key_value_pairs:
  "((\<exists>elem\<in>set (strings_Split tag '',''). length (strings_Split elem ''='') \<noteq> 2) \<longrightarrow>
      ParseResourceTag tag = Inl (Fatal (resource_tag_message tag)) \<and>
      ParseControllerTag tag = Inl (Fatal (controller_tag_message tag)) \<and>
      ParseSubresourceTag c tag = Inl (Fatal (subresource_tag_message tag))) \<and>
   ((\<forall>elem\<in>set (strings_Split tag '',''). length (strings_Split elem ''='') = 2) \<longrightarrow>
      (\<exists>r. ParseResourceTag tag = Inr r) \<and>
      (\<exists>r. ParseControllerTag tag = Inr r) \<and>
      (\<exists>r. ParseSubresourceTag c tag = Inr r)) \<and>
   strings_Contains (resource_tag_message tag) ''tags must be key value pairs'' \<and>
   strings_Contains (resource_tag_message tag) tag \<and>
   strings_Contains (controller_tag_message tag) ''tags must be key value pairs'' \<and>
   strings_Contains (controller_tag_message tag) tag \<and>
   strings_Contains (subresource_tag_message tag) ''tags must be key value pairs'' \<and>
   strings_Contains (subresource_tag_message tag) tag"
proof -
  have malformed: "ParseResourceTag tag = Inl (Fatal (resource_tag_message tag)) \<and>
      ParseControllerTag tag = Inl (Fatal (controller_tag_message tag)) \<and>
      ParseSubresourceTag c tag = Inl (Fatal (subresource_tag_message tag))"
    if "\<exists>elem\<in>set (strings_Split tag '',''). length (strings_Split elem ''='') \<noteq> 2"
    using that
    by (simp add: ParseResourceTag_def ParseControllerTag_def ParseSubresourceTag_def
        ParseSubresourceTag_tags_def ParseResourceTag_loop_malformed
        ParseControllerTag_loop_malformed ParseSubresourceTag_loop_malformed)
  have wellformed: "(\<exists>r. ParseResourceTag tag = Inr r) \<and>
      (\<exists>r. ParseControllerTag tag = Inr r) \<and>
      (\<exists>r. ParseSubresourceTag c tag = Inr r)"
    if "\<forall>elem\<in>set (strings_Split tag '',''). length (strings_Split elem ''='') = 2"
    unfolding ParseResourceTag_def ParseControllerTag_def ParseSubresourceTag_def
      ParseSubresourceTag_tags_def
    using ParseResourceTag_loop_wellformed [OF that]
      ParseControllerTag_loop_wellformed [OF that]
      ParseSubresourceTag_loop_wellformed [OF that]
    by simp
  show ?thesis
    using malformed wellformed resource_tag_message_contains [of tag]
      controller_tag_message_contains [of tag] subresource_tag_message_contains [of tag]
    by simp
qed

theorem tag_parsers_key_value_pairs_witness:
  "ParseResourceTag ''path=widgets,strategy'' =
     Inl (Fatal (resource_tag_message ''path=widgets,strategy'')) \<and>
   (\<exists>r. ParseControllerTag ''group=core,kind=Widget'' = Inr r)"
proof -
  have malformed: "\<exists>elem\<in>set (strings_Split ''path=widgets,strategy'' '','').
      length (strings_Split elem ''='') \<noteq> 2"
    by code_simp
  have wellformed: "\<forall>elem\<in>set (strings_Split ''group=core,kind=Widget'' '','').
      length (strings_Split elem ''='') = 2"
    by code_simp
  show ?thesis
    using tag_parsers_key_value_pairs [of "''path=widgets,strategy''"]
      tag_parsers_key_value_pairs [of "''group=core,kind=Widget''"] malformed wellformed
    by blast
qed

lemma ParseResourceTag_loop_append:
  "\<forall>e\<in>set pre. length (strings_Split e ''='') = 2 \<Longrightarrow>
   \<exists>r'. ParseResourceTag_loop tag (pre @ rest) r = ParseResourceTag_loop tag rest r'"
  by (induction pre arbitrary: r) (auto simp: Let_def)

lemma ParseControllerTag_loop_append:
  "\<forall>e\<in>set pre. length (strings_Split e ''='') = 2 \<Longrightarrow>
   \<exists>r'. ParseControllerTag_loop tag (pre @ rest) r = ParseControllerTag_loop tag rest r'"
  by (induction pre arbitrary: r) (auto simp: Let_def)

lemma ParseSubresourceTag_loop_append:
  "\<forall>e\<in>set pre. length (strings_Split e ''='') = 2 \<Longrightarrow>
   \<exists>r'. ParseSubresourceTag_loop res tag (pre @ rest) r = ParseSubresourceTag_loop res tag rest r'"
  by (induction pre arbitrary: r) (auto simp: Let_def)

lemma ParseResourceTag_loop_keeps:
  "ParseResourceTag_loop tag elems r = Inr r' \<Longrightarrow>
   ((\<forall>e\<in>set elems. strings_Split e ''='' ! 0 \<noteq> ''rest'') \<longrightarrow> rt_REST r' = rt_REST r) \<and>
   ((\<forall>e\<in>set elems. strings_Split e ''='' ! 0 \<noteq> ''path'') \<longrightarrow> rt_Resource r' = rt_Resource r) \<and>
   ((\<forall>e\<in>set elems. strings_Split e ''='' ! 0 \<noteq> ''strategy'') \<longrightarrow> rt_Strategy r' = rt_Strategy r)"
  by (induction elems arbitrary: r) (auto simp: Let_def split: if_splits)

lemma ParseControllerTag_loop_keeps:
  "ParseControllerTag_loop tag elems r = Inr r' \<Longrightarrow>
   ((\<forall>e\<in>set elems. strings_Split e ''='' ! 0 \<noteq> ''group'') \<longrightarrow>
      gvk_Group (ct_gvk r') = gvk_Group (ct_gvk r)) \<and>
   ((\<forall>e\<in>set elems. strings_Split e ''='' ! 0 \<noteq> ''version'') \<longrightarrow>
      gvk_Version (ct_gvk r') = gvk_Version (ct_gvk r)) \<and>
   ((\<forall>e\<in>set elems. strings_Split e ''='' ! 0 \<noteq> ''kind'') \<longrightarrow>
      gvk_Kind (ct_gvk r') = gvk_Kind (ct_gvk r)) \<and>
   ((\<forall>e\<in>set elems. strings_Split e ''='' ! 0 \<noteq> ''resource'') \<longrightarrow>
      ct_resource r' = ct_resource r)"
  by (induction elems arbitrary: r) (auto simp: Let_def split: if_splits)

lemma ParseSubresourceTag_loop_keeps:
  "ParseSubresourceTag_loop res tag elems r = Inr r' \<Longrightarrow>
   ((\<forall>e\<in>set elems. strings_Split e ''='' ! 0 \<noteq> ''request'') \<longrightarrow>
      st_RequestKind r' = st_RequestKind r) \<and>
   ((\<forall>e\<in>set elems. strings_Split e ''='' ! 0 \<noteq> ''rest'') \<longrightarrow> st_REST r' = st_REST r) \<and>
   ((\<forall>e\<in>set elems. strings_Split e ''='' ! 0 \<noteq> ''path'') \<longrightarrow> st_Path r' = st_Path r) \<and>
   st_Kind r' = st_Kind r"
  by (induction elems arbitrary: r) (auto simp: Let_def split: if_splits)

text \<open>The element that sets a field last decides it.\<close>

lemma ParseResourceTag_loop_last:
  assumes "\<forall>e\<in>set (pre @ elem # post). length (strings_Split e ''='') = 2"
    and "\<forall>e\<in>set post. strings_Split e ''='' ! 0 \<noteq> strings_Split elem ''='' ! 0"
  shows "\<exists>r'. ParseResourceTag_loop tag (pre @ elem # post) r = Inr r' \<and>
     (strings_Split elem ''='' ! 0 = ''rest'' \<longrightarrow> rt_REST r' = strings_Split elem ''='' ! 1) \<and>
     (strings_Split elem ''='' ! 0 = ''path'' \<longrightarrow> rt_Resource r' = strings_Split elem ''='' ! 1) \<and>
     (strings_Split elem ''='' ! 0 = ''strategy'' \<longrightarrow> rt_Strategy r' = strings_Split elem ''='' ! 1)"
proof -
  from assms(1) obtain r1 where
    r1: "ParseResourceTag_loop tag (pre @ elem # post) r = ParseResourceTag_loop tag (elem # post) r1"
    using ParseResourceTag_loop_append [of pre tag "elem # post" r] by auto
  from assms(1) obtain r' where r': "ParseResourceTag_loop tag (elem # post) r1 = Inr r'"
    using ParseResourceTag_loop_wellformed [of "elem # post" tag r1] by auto
  from assms(1) have two: "length (strings_Split elem ''='') = 2" by simp
  show ?thesis
    using r' ParseResourceTag_loop_keeps [of tag post _ r'] assms(2) two
    unfolding r1 by (auto simp: Let_def split: if_splits)
qed

lemma ParseControllerTag_loop_last:
  assumes "\<forall>e\<in>set (pre @ elem # post). length (strings_Split e ''='') = 2"
    and "\<forall>e\<in>set post. strings_Split e ''='' ! 0 \<noteq> strings_Split elem ''='' ! 0"
  shows "\<exists>r'. ParseControllerTag_loop tag (pre @ elem # post) r = Inr r' \<and>
     (strings_Split elem ''='' ! 0 = ''group'' \<longrightarrow> gvk_Group (ct_gvk r') = strings_Split elem ''='' ! 1) \<and>
     (strings_Split elem ''='' ! 0 = ''version'' \<longrightarrow> gvk_Version (ct_gvk r') = strings_Split elem ''='' ! 1) \<and>
     (strings_Split elem ''='' ! 0 = ''kind'' \<longrightarrow> gvk_Kind (ct_gvk r') = strings_Split elem ''='' ! 1) \<and>
     (strings_Split elem ''='' ! 0 = ''resource'' \<longrightarrow> ct_resource r' = strings_Split elem ''='' ! 1)"
proof -
  from assms(1) obtain r1 where
    r1: "ParseControllerTag_loop tag (pre @ elem # post) r = ParseControllerTag_loop tag (elem # post) r1"
    using ParseControllerTag_loop_append [of pre tag "elem # post" r] by auto
  from assms(1) obtain r' where r': "ParseControllerTag_loop tag (elem # post) r1 = Inr r'"
    using ParseControllerTag_loop_wellformed [of "elem # post" tag r1] by auto
  from assms(1) have two: "length (strings_Split elem ''='') = 2" by simp
  show ?thesis
    using r' ParseControllerTag_loop_keeps [of tag post _ r'] assms(2) two
    unfolding r1 by (auto simp: Let_def split: if_splits)
qed

lemma ParseSubresourceTag_loop_last:
  assumes "\<forall>e\<in>set (pre @ elem # post). length (strings_Split e ''='') = 2"
    and "\<forall>e\<in>set post. strings_Split e ''='' ! 0 \<noteq> strings_Split elem ''='' ! 0"
  shows "\<exists>r'. ParseSubresourceTag_loop res tag (pre @ elem # post) r = Inr r' \<and>
     (strings_Split elem ''='' ! 0 = ''request'' \<longrightarrow> st_RequestKind r' = strings_Split elem ''='' ! 1) \<and>
     (strings_Split elem ''='' ! 0 = ''rest'' \<longrightarrow> st_REST r' = strings_Split elem ''='' ! 1) \<and>
     (strings_Split elem ''='' ! 0 = ''path'' \<longrightarrow>
        st_Path r' = strings_Replace (strings_Split elem ''='' ! 1) (res @ ''/'') [] (- 1))"
proof -
  from assms(1) obtain r1 where
    r1: "ParseSubresourceTag_loop res tag (pre @ elem # post) r =
         ParseSubresourceTag_loop res tag (elem # post) r1"
    using ParseSubresourceTag_loop_append [of pre res tag "elem # post" r] by auto
  from assms(1) obtain r' where r': "ParseSubresourceTag_loop res tag (elem # post) r1 = Inr r'"
    using ParseSubresourceTag_loop_wellformed [of "elem # post" res tag r1] by auto
  from assms(1) have two: "length (strings_Split elem ''='') = 2" by simp
  show ?thesis
    using r' ParseSubresourceTag_loop_keeps [of res tag post _ r'] assms(2) two
    unfolding r1 by (auto simp: Let_def split: if_splits)
qed

text \<open>
  C10. In each of the three tag parsers, on a well-formed tag, the element after which
  no later element has the same key decides the field of that key: a recognized key
  that appears more than once holds the value of its last occurrence (for the path of
  a subresource, that value with the parent resource stripped).
\<close>

theorem tag_parsers_last_occurrence_wins:
  assumes "strings_Split tag '','' = pre @ elem # post"
    and "\<forall>e\<in>set (strings_Split tag '',''). length (strings_Split e ''='') = 2"
    and "\<forall>e\<in>set post. strings_Split e ''='' ! 0 \<noteq> strings_Split elem ''='' ! 0"
  shows "\<exists>rt ct st.
     ParseResourceTag tag = Inr rt \<and> ParseControllerTag tag = Inr ct \<and>
     ParseSubresourceTag c tag = Inr st \<and>
     (strings_Split elem ''='' ! 0 = ''rest'' \<longrightarrow> rt_REST rt = strings_Split elem ''='' ! 1) \<and>
     (strings_Split elem ''='' ! 0 = ''path'' \<longrightarrow> rt_Resource rt = strings_Split elem ''='' ! 1) \<and>
     (strings_Split elem ''='' ! 0 = ''strategy'' \<longrightarrow> rt_Strategy rt = strings_Split elem ''='' ! 1) \<and>
     (strings_Split elem ''='' ! 0 = ''group'' \<longrightarrow> gvk_Group (ct_gvk ct) = strings_Split elem ''='' ! 1) \<and>
     (strings_Split elem ''='' ! 0 = ''version'' \<longrightarrow> gvk_Version (ct_gvk ct) = strings_Split elem ''='' ! 1) \<and>
     (strings_Split elem ''='' ! 0 = ''kind'' \<longrightarrow> gvk_Kind (ct_gvk ct) = strings_Split elem ''='' ! 1) \<and>
     (strings_Split elem ''='' ! 0 = ''resource'' \<longrightarrow> ct_resource ct = strings_Split elem ''='' ! 1) \<and>
     (strings_Split elem ''='' ! 0 = ''request'' \<longrightarrow> st_RequestKind st = strings_Split elem ''='' ! 1) \<and>
     (strings_Split elem ''='' ! 0 = ''rest'' \<longrightarrow> st_REST st = strings_Split elem ''='' ! 1) \<and>
     (strings_Split elem ''='' ! 0 = ''path'' \<longrightarrow>
        st_Path st = strings_Replace (strings_Split elem ''='' ! 1) (res_Resource c @ ''/'') [] (- 1))"
proof -
  have wf: "\<forall>e\<in>set (pre @ elem # post). length (strings_Split e ''='') = 2"
    using assms(1,2) by simp
  obtain rt where rt: "ParseResourceTag_loop tag (pre @ elem # post)
       \<lparr>rt_Resource = [], rt_REST = [], rt_Strategy = []\<rparr> = Inr rt"
     "strings_Split elem ''='' ! 0 = ''rest'' \<longrightarrow> rt_REST rt = strings_Split elem ''='' ! 1"
     "strings_Split elem ''='' ! 0 = ''path'' \<longrightarrow> rt_Resource rt = strings_Split elem ''='' ! 1"
     "strings_Split elem ''='' ! 0 = ''strategy'' \<longrightarrow> rt_Strategy rt = strings_Split elem ''='' ! 1"
    using ParseResourceTag_loop_last [OF wf assms(3)] by blast
  obtain ct where ct: "ParseControllerTag_loop tag (pre @ elem # post)
       \<lparr>ct_gvk = \<lparr>gvk_Group = [], gvk_Version = [], gvk_Kind = []\<rparr>, ct_resource = []\<rparr> = Inr ct"
     "strings_Split elem ''='' ! 0 = ''group'' \<longrightarrow> gvk_Group (ct_gvk ct) = strings_Split elem ''='' ! 1"
     "strings_Split elem ''='' ! 0 = ''version'' \<longrightarrow> gvk_Version (ct_gvk ct) = strings_Split elem ''='' ! 1"
     "strings_Split elem ''='' ! 0 = ''kind'' \<longrightarrow> gvk_Kind (ct_gvk ct) = strings_Split elem ''='' ! 1"
     "strings_Split elem ''='' ! 0 = ''resource'' \<longrightarrow> ct_resource ct = strings_Split elem ''='' ! 1"
    using ParseControllerTag_loop_last [OF wf assms(3)] by blast
  obtain st where st: "ParseSubresourceTag_loop (res_Resource c) tag (pre @ elem # post)
       \<lparr>st_Path = [], st_Kind = [], st_RequestKind = [], st_REST = []\<rparr> = Inr st"
     "strings_Split elem ''='' ! 0 = ''request'' \<longrightarrow> st_RequestKind st = strings_Split elem ''='' ! 1"
     "strings_Split elem ''='' ! 0 = ''rest'' \<longrightarrow> st_REST st = strings_Split elem ''='' ! 1"
     "strings_Split elem ''='' ! 0 = ''path'' \<longrightarrow>
        st_Path st = strings_Replace (strings_Split elem ''='' ! 1) (res_Resource c @ ''/'') [] (- 1)"
    using ParseSubresourceTag_loop_last [OF wf assms(3)] by blast
  show ?thesis
    unfolding ParseResourceTag_def ParseControllerTag_def ParseSubresourceTag_def
      ParseSubresourceTag_tags_def assms(1)
    using rt ct st by blast
qed

theorem tag_parsers_last_occurrence_wins_witness:
  "\<exists>rt. ParseResourceTag ''path=a,path=b,rest=R'' = Inr rt \<and> rt_Resource rt = ''b''"
proof -
  have s: "strings_Split ''path=a,path=b,rest=R'' '','' = [''path=a''] @ ''path=b'' # [''rest=R'']"
    by code_simp
  have wf: "\<forall>e\<in>set (strings_Split ''path=a,path=b,rest=R'' '',''). length (strings_Split e ''='') = 2"
    by code_simp
  have later: "\<forall>e\<in>set [''rest=R'']. strings_Split e ''='' ! 0 \<noteq> strings_Split ''path=b'' ''='' ! 0"
    by code_simp
  have k: "strings_Split ''path=b'' ''='' = [''path'', ''b'']"
    by code_simp
  show ?thesis
    using tag_parsers_last_occurrence_wins [OF s wf later] k by auto
qed

lemma ParseResourceTag_loop_once:
  assumes wf: "\<forall>e\<in>set elems. length (strings_Split e ''='') = 2"
    and once: "length (filter (\<lambda>e. strings_Split e ''='' ! 0 = k) elems) \<le> 1"
    and mem: "elem \<in> set elems" and key: "strings_Split elem ''='' ! 0 = k"
    and res: "ParseResourceTag_loop tag elems r = Inr r'"
  shows "(k = ''rest'' \<longrightarrow> rt_REST r' = strings_Split elem ''='' ! 1) \<and>
     (k = ''path'' \<longrightarrow> rt_Resource r' = strings_Split elem ''='' ! 1) \<and>
     (k = ''strategy'' \<longrightarrow> rt_Strategy r' = strings_Split elem ''='' ! 1)"
proof -
  from mem obtain pre post where elems: "elems = pre @ elem # post"
    by (auto dest: split_list)
  have "filter (\<lambda>e. strings_Split e ''='' ! 0 = k) post = []"
    using once key unfolding elems by (cases "filter (\<lambda>e. strings_Split e ''='' ! 0 = k) post") auto
  then have post: "\<forall>e\<in>set post. strings_Split e ''='' ! 0 \<noteq> strings_Split elem ''='' ! 0"
    unfolding key by (simp add: filter_empty_conv)
  show ?thesis
    using ParseResourceTag_loop_last [OF wf [unfolded elems] post, of tag r] res key
    unfolding elems by auto
qed

lemma ParseResourceTag_loop_same_field:
  assumes eq: "set ys = set xs"
    and wf: "\<forall>e\<in>set xs. length (strings_Split e ''='') = 2"
    and oncex: "length (filter (\<lambda>e. strings_Split e ''='' ! 0 = k) xs) \<le> 1"
    and oncey: "length (filter (\<lambda>e. strings_Split e ''='' ! 0 = k) ys) \<le> 1"
    and rx: "ParseResourceTag_loop tag xs r = Inr r1"
    and ry: "ParseResourceTag_loop tag' ys r = Inr r2"
  shows "(k = ''rest'' \<longrightarrow> rt_REST r1 = rt_REST r2) \<and>
     (k = ''path'' \<longrightarrow> rt_Resource r1 = rt_Resource r2) \<and>
     (k = ''strategy'' \<longrightarrow> rt_Strategy r1 = rt_Strategy r2)"
proof (cases "\<exists>e\<in>set xs. strings_Split e ''='' ! 0 = k")
  case True
  then obtain e where e: "e \<in> set xs" "strings_Split e ''='' ! 0 = k" by blast
  have wfy: "\<forall>e\<in>set ys. length (strings_Split e ''='') = 2" using wf eq by simp
  have ey: "e \<in> set ys" using e eq by simp
  show ?thesis
    using ParseResourceTag_loop_once [OF wf oncex e rx]
      ParseResourceTag_loop_once [OF wfy oncey ey e(2) ry] by simp
next
  case False
  then have nx: "\<forall>e\<in>set xs. strings_Split e ''='' ! 0 \<noteq> k" by blast
  then have ny: "\<forall>e\<in>set ys. strings_Split e ''='' ! 0 \<noteq> k" using eq by simp
  show ?thesis
    using ParseResourceTag_loop_keeps [OF rx] ParseResourceTag_loop_keeps [OF ry] nx ny
    by auto
qed

lemma ParseResourceTag_loop_unrecognized:
  "\<forall>e\<in>set elems. length (strings_Split e ''='') = 2 \<Longrightarrow>
   ParseResourceTag_loop tag
     (filter (\<lambda>e. strings_Split e ''='' ! 0 \<in> {''rest'', ''path'', ''strategy''}) elems) r =
   ParseResourceTag_loop tag elems r"
  by (induction elems arbitrary: r) (auto simp: Let_def)

text \<open>
  C7. On a well-formed \<^verbatim>\<open>+resource\<close> tag in which each of the keys \<^verbatim>\<open>rest\<close>, \<^verbatim>\<open>path\<close> and
  \<^verbatim>\<open>strategy\<close> appears at most once, \<^verbatim>\<open>ParseResourceTag\<close> returns the same record for
  every permutation of the comma-separated elements; and the elements with another key
  are discarded: parsing the elements without them gives the same result.
\<close>

theorem ParseResourceTag_order_of_keys:
  assumes wf: "\<forall>e\<in>set (strings_Split tag '',''). length (strings_Split e ''='') = 2"
    and perm: "mset (strings_Split tag' '','') = mset (strings_Split tag '','')"
    and once: "\<forall>k\<in>{''rest'', ''path'', ''strategy''}.
        length (filter (\<lambda>e. strings_Split e ''='' ! 0 = k) (strings_Split tag '','')) \<le> 1"
  shows "(\<exists>r. ParseResourceTag tag = Inr r \<and> ParseResourceTag tag' = Inr r) \<and>
     ParseResourceTag_loop tag
       (filter (\<lambda>e. strings_Split e ''='' ! 0 \<in> {''rest'', ''path'', ''strategy''})
          (strings_Split tag '','')) r0 =
     ParseResourceTag_loop tag (strings_Split tag '','') r0"
proof -
  let ?xs = "strings_Split tag '',''" and ?ys = "strings_Split tag' '',''"
  let ?r0 = "\<lparr>rt_Resource = [], rt_REST = [], rt_Strategy = []\<rparr>"
  have eq: "set ?ys = set ?xs" using perm by (rule mset_eq_setD)
  have wfy: "\<forall>e\<in>set ?ys. length (strings_Split e ''='') = 2" using wf eq by simp
  have len: "length (filter P ?ys) = length (filter P ?xs)" for P
    using perm by (metis mset_filter size_mset)
  obtain r1 where r1: "ParseResourceTag_loop tag ?xs ?r0 = Inr r1"
    using ParseResourceTag_loop_wellformed [OF wf] by blast
  obtain r2 where r2: "ParseResourceTag_loop tag' ?ys ?r0 = Inr r2"
    using ParseResourceTag_loop_wellformed [OF wfy] by blast
  have f: "(k = ''rest'' \<longrightarrow> rt_REST r1 = rt_REST r2) \<and>
     (k = ''path'' \<longrightarrow> rt_Resource r1 = rt_Resource r2) \<and>
     (k = ''strategy'' \<longrightarrow> rt_Strategy r1 = rt_Strategy r2)"
    if "k \<in> {''rest'', ''path'', ''strategy''}" for k
  proof -
    have ox: "length (filter (\<lambda>e. strings_Split e ''='' ! 0 = k) ?xs) \<le> 1"
      using once that by blast
    then have oy: "length (filter (\<lambda>e. strings_Split e ''='' ! 0 = k) ?ys) \<le> 1"
      by (simp add: len)
    show ?thesis by (rule ParseResourceTag_loop_same_field [OF eq wf ox oy r1 r2])
  qed
  have "r1 = r2"
    using f [of "''rest''"] f [of "''path''"] f [of "''strategy''"] by simp
  then show ?thesis
    using r1 r2 ParseResourceTag_loop_unrecognized [OF wf]
    by (simp add: ParseResourceTag_def)
qed

theorem ParseResourceTag_order_of_keys_witness:
  "\<exists>r. ParseResourceTag ''path=widgets,priority=high,strategy=S'' = Inr r \<and>
       ParseResourceTag ''strategy=S,path=widgets,priority=high'' = Inr r"
proof -
  have x: "strings_Split ''path=widgets,priority=high,strategy=S'' '','' =
      [''path=widgets'', ''priority=high'', ''strategy=S'']"
    by code_simp
  have y: "strings_Split ''strategy=S,path=widgets,priority=high'' '','' =
      [''strategy=S'', ''path=widgets'', ''priority=high'']"
    by code_simp
  have wf: "\<forall>e\<in>set (strings_Split ''path=widgets,priority=high,strategy=S'' '','').
      length (strings_Split e ''='') = 2"
    by code_simp
  have perm: "mset (strings_Split ''strategy=S,path=widgets,priority=high'' '','') =
      mset (strings_Split ''path=widgets,priority=high,strategy=S'' '','')"
    unfolding x y by simp
  have once: "\<forall>k\<in>{''rest'', ''path'', ''strategy''}.
      length (filter (\<lambda>e. strings_Split e ''='' ! 0 = k)
        (strings_Split ''path=widgets,priority=high,strategy=S'' '','')) \<le> 1"
    by code_simp
  show ?thesis
    using ParseResourceTag_order_of_keys [OF wf perm once] by blast
qed

section \<open>Properties of the subresource resolver\<close>

lemma sublist_singleton_iff: "sublist [x] ys \<longleftrightarrow> x \<in> set ys"
  by (induction ys) (auto simp: sublist_Cons_right)

lemma filter_rev_upt_Nil:
  "filter P (rev [0..<m]) = [] \<longleftrightarrow> (\<forall>j<m. \<not> P j)"
  by (auto simp: filter_empty_conv)

lemma filter_rev_upt_Cons:
  "filter P (rev [0..<m]) = i # rest \<Longrightarrow> i < m \<and> P i \<and> (\<forall>j. i < j \<and> j < m \<longrightarrow> \<not> P j)"
proof (induction m)
  case 0
  then show ?case by simp
next
  case (Suc m)
  show ?case
  proof (cases "P m")
    case True
    with Suc.prems have "i = m" by simp
    with True show ?thesis by auto
  next
    case False
    with Suc.prems have "filter P (rev [0..<m]) = i # rest" by simp
    from Suc.IH [OF this] have ih: "i < m" "P i" "\<forall>j. i < j \<and> j < m \<longrightarrow> \<not> P j"
      by blast+
    have "\<not> P j" if "i < j" "j < Suc m" for j
    proof (cases "j = m")
      case True
      with False show ?thesis by simp
    next
      case False
      with that have "j < m" by simp
      with ih(3) that(1) show ?thesis by blast
    qed
    with ih(1,2) show ?thesis by (simp add: less_SucI)
  qed
qed

lemma prefix_dot_drop: "prefix [x] (drop i s) \<longleftrightarrow> i < length s \<and> s ! i = x"
proof (cases "i < length s")
  case True
  then have "drop i s = s ! i # drop (Suc i) s" by (simp add: Cons_nth_drop_Suc)
  then show ?thesis using True by auto
next
  case False
  then show ?thesis by simp
qed
lemma strings_LastIndex_none:
  "x \<notin> set s \<Longrightarrow> strings_LastIndex s [x] = - 1"
proof -
  assume "x \<notin> set s"
  then have "filter (\<lambda>i. prefix [x] (drop i s)) (rev [0..<Suc (length s)]) = []"
    unfolding filter_rev_upt_Nil prefix_dot_drop by auto
  then show ?thesis by (simp add: strings_LastIndex_def)
qed

lemma strings_LastIndex_some:
  assumes "x \<in> set s"
  shows "\<exists>i. strings_LastIndex s [x] = int i \<and> i < length s \<and>
     s = take i s @ [x] @ drop (Suc i) s \<and> x \<notin> set (drop (Suc i) s)"
proof -
  let ?P = "\<lambda>i. prefix [x] (drop i s)"
  from assms obtain k where "k < length s" "s ! k = x" by (auto simp: in_set_conv_nth)
  then have "\<not> (\<forall>j<Suc (length s). \<not> ?P j)"
    unfolding prefix_dot_drop by (metis less_SucI)
  then obtain i rest where f: "filter ?P (rev [0..<Suc (length s)]) = i # rest"
    unfolding filter_rev_upt_Nil [symmetric] by (cases "filter ?P (rev [0..<Suc (length s)])") auto
  from filter_rev_upt_Cons [OF f]
  have i: "i < length s" "s ! i = x" and later: "\<forall>j. i < j \<and> j < length s \<longrightarrow> s ! j \<noteq> x"
    unfolding prefix_dot_drop by auto
  have "s = take i s @ [x] @ drop (Suc i) s"
    using i id_take_nth_drop [of i s] by simp
  moreover have "x \<notin> set (drop (Suc i) s)"
    using later by (auto simp: in_set_conv_nth)
  moreover have "strings_LastIndex s [x] = int i"
    using f by (simp add: strings_LastIndex_def)
  ultimately show ?thesis using i by blast
qed

lemma GetNameAndImport_dot:
  assumes "strings_Contains (st_RequestKind tags) ''.''"
  shows "\<exists>importPackage bare. st_RequestKind tags = importPackage @ ''.'' @ bare \<and>
     CHR ''.'' \<notin> set bare \<and>
     GetNameAndImport tags = Inr (filepath_Base importPackage @ ''.'' @ bare, importPackage)"
proof -
  define rk where "rk = st_RequestKind tags"
  from assms have "CHR ''.'' \<in> set rk"
    by (simp add: strings_Contains_def sublist_singleton_iff rk_def)
  from strings_LastIndex_some [OF this] obtain i where
    i: "strings_LastIndex rk ''.'' = int i" and
    split: "rk = take i rk @ ''.'' @ drop (Suc i) rk" and
    nodot: "CHR ''.'' \<notin> set (drop (Suc i) rk)"
    by blast
  have n: "nat (int i + 1) = Suc i" by simp
  have "GetNameAndImport tags =
     Inr (filepath_Base (take i rk) @ ''.'' @ drop (Suc i) rk, take i rk)"
    unfolding GetNameAndImport_def Let_def rk_def [symmetric] i n by simp
  with split nodot show ?thesis
    unfolding rk_def by (intro exI [of _ "take i (st_RequestKind tags)"]
      exI [of _ "drop (Suc i) (st_RequestKind tags)"] conjI)
qed

lemma ParseSubresourceTag_Kind:
  "ParseSubresourceTag c tag = Inr tags \<Longrightarrow> st_Kind tags = []"
  unfolding ParseSubresourceTag_def ParseSubresourceTag_tags_def
  by (drule ParseSubresourceTag_loop_keeps) simp

lemma GetSubresources_descriptor_Inr:
  assumes "GetSubresources_descriptor b c subresource = Inr sr"
  shows "\<exists>tags. ParseSubresourceTag c subresource = Inr tags \<and>
     sub_Path sr = st_Path tags \<and> sub_Kind sr = st_Kind tags \<and> sub_REST sr = st_REST tags \<and>
     sub_Domain sr = b_Domain b \<and> sub_Group sr = res_Group c \<and>
     sub_Version sr = res_Version c \<and> sub_Resource sr = res_Resource c \<and>
     sub_RequestType sr = None \<and> sub_RESTType sr = None \<and>
     (if strings_Contains (st_RequestKind tags) ''.''
      then GetNameAndImport tags = Inr (sub_Request sr, sub_ImportPackage sr)
      else sub_Request sr = st_RequestKind tags \<and> sub_ImportPackage sr = [])"
proof (cases "ParseSubresourceTag c subresource")
  case (Inl e)
  with assms show ?thesis by (simp add: GetSubresources_descriptor_def)
next
  case (Inr tags)
  show ?thesis
  proof (cases "strings_Contains (st_RequestKind tags) ''.''")
    case False
    with assms Inr show ?thesis
      by (auto simp: GetSubresources_descriptor_def IsInPackage_def Let_def)
  next
    case True
    show ?thesis
    proof (cases "GetNameAndImport tags")
      case (Inl e)
      with assms Inr True show ?thesis
        by (simp add: GetSubresources_descriptor_def IsInPackage_def Let_def)
    next
      case (Inr p)
      obtain request importPackage where p: "p = (request, importPackage)" by (cases p)
      from assms \<open>ParseSubresourceTag c subresource = Inr tags\<close> True Inr p
      have "sr = \<lparr>sub_Domain = b_Domain b, sub_Group = res_Group c, sub_Version = res_Version c,
                    sub_Kind = st_Kind tags, sub_Resource = res_Resource c,
                    sub_Request = request, sub_REST = st_REST tags,
                    sub_Path = st_Path tags, sub_ImportPackage = importPackage,
                    sub_RequestType = None, sub_RESTType = None\<rparr>"
        by (simp add: GetSubresources_descriptor_def IsInPackage_def Let_def)
      with \<open>ParseSubresourceTag c subresource = Inr tags\<close> True Inr p show ?thesis
        by simp
    qed
  qed
qed

lemma GetSubresources_descriptor_wellformed:
  assumes "\<forall>e\<in>set (strings_Split subresource '',''). length (strings_Split e ''='') = 2"
  shows "\<exists>sr. GetSubresources_descriptor b c subresource = Inr sr"
proof -
  obtain tags where tags: "ParseSubresourceTag c subresource = Inr tags"
    unfolding ParseSubresourceTag_def ParseSubresourceTag_tags_def
    using ParseSubresourceTag_loop_wellformed [OF assms] by blast
  show ?thesis
  proof (cases "strings_Contains (st_RequestKind tags) ''.''")
    case True
    from GetNameAndImport_dot [OF True] show ?thesis
      unfolding GetSubresources_descriptor_def IsInPackage_def
      by (auto simp: tags Let_def True)
  next
    case False
    then show ?thesis
      unfolding GetSubresources_descriptor_def IsInPackage_def
      by (simp add: tags Let_def)
  qed
qed

lemma update_fresh: "map_of al k = None \<Longrightarrow> AList.update k v al = al @ [(k, v)]"
  by (induction al) (auto split: if_splits)

lemma GetSubresources_loop_Inr:
  "GetSubresources_loop b c subresources r = Inr m \<Longrightarrow>
   \<exists>srs. map (GetSubresources_descriptor b c) subresources = map Inr srs \<and>
     m = r @ map (\<lambda>sr. (sub_Path sr, sr)) srs \<and>
     distinct (map sub_Path srs) \<and> (\<forall>sr\<in>set srs. map_of r (sub_Path sr) = None)"
proof (induction subresources arbitrary: r)
  case Nil
  then show ?case by simp
next
  case (Cons t ts)
  from Cons.prems obtain sr where sr: "GetSubresources_descriptor b c t = Inr sr"
    and none: "map_of r (sub_Path sr) = None"
    and rest: "GetSubresources_loop b c ts (AList.update (sub_Path sr) sr r) = Inr m"
    by (auto split: sum.splits option.splits)
  from Cons.IH [OF rest] obtain srs where
    srs: "map (GetSubresources_descriptor b c) ts = map Inr srs"
      "m = AList.update (sub_Path sr) sr r @ map (\<lambda>sr. (sub_Path sr, sr)) srs"
      "distinct (map sub_Path srs)"
      "\<forall>s\<in>set srs. map_of (AList.update (sub_Path sr) sr r) (sub_Path s) = None"
    by blast
  have a: "map (GetSubresources_descriptor b c) (t # ts) = map Inr (sr # srs)"
    using sr srs(1) by simp
  have b: "m = r @ map (\<lambda>sr. (sub_Path sr, sr)) (sr # srs)"
    using srs(2) by (simp add: update_fresh [OF none])
  have c: "distinct (map sub_Path (sr # srs))"
    using srs(3,4) by (auto simp: update_conv' split: if_splits)
  have d: "\<forall>s\<in>set (sr # srs). map_of r (sub_Path s) = None"
    using srs(4) none by (auto simp: update_conv' split: if_splits)
  from a b c d show ?case by blast
qed


lemma first_collision:
  "\<not> distinct (map f xs) \<Longrightarrow>
   \<exists>pre x post. xs = pre @ x # post \<and> distinct (map f pre) \<and> f x \<in> set (map f pre)"
proof (induction xs rule: rev_induct)
  case Nil
  then show ?case by simp
next
  case (snoc y ys)
  show ?case
  proof (cases "distinct (map f ys)")
    case True
    with snoc.prems have "f y \<in> set (map f ys)" by auto
    with True have "ys @ [y] = ys @ y # [] \<and> distinct (map f ys) \<and> f y \<in> set (map f ys)"
      by simp
    then show ?thesis by blast
  next
    case False
    from snoc.IH [OF False] obtain pre x post where
      "ys = pre @ x # post" "distinct (map f pre)" "f x \<in> set (map f pre)" by blast
    then have "ys @ [y] = pre @ x # (post @ [y]) \<and> distinct (map f pre) \<and>
        f x \<in> set (map f pre)" by simp
    then show ?thesis by blast
  qed
qed

text \<open>
  Two directives with the same resolved path always give such a first collision among
  the directives up to the later one.
\<close>

lemma equal_paths_first_collision:
  assumes "i < j" and "j < length subresources"
    and "resolved_path b c (subresources ! i) = resolved_path b c (subresources ! j)"
  shows "\<exists>pre t post t0. subresources = pre @ t # post \<and> length pre \<le> j \<and>
     distinct (map (resolved_path b c) pre) \<and> t0 \<in> set pre \<and>
     resolved_path b c t0 = resolved_path b c t"
proof -
  let ?xs = "take (Suc j) subresources"
  have len: "length ?xs = Suc j" using assms(2) by simp
  have il: "i < length (map (resolved_path b c) ?xs)" "j < length (map (resolved_path b c) ?xs)"
    using assms(1) len by simp_all
  have eq: "map (resolved_path b c) ?xs ! i = map (resolved_path b c) ?xs ! j"
    using assms il by simp
  have "\<not> distinct (map (resolved_path b c) ?xs)"
  proof
    assume "distinct (map (resolved_path b c) ?xs)"
    from nth_eq_iff_index_eq [OF this il] eq have "i = j" by blast
    with assms(1) show False by simp
  qed
  from first_collision [OF this] obtain pre t post where
    d: "?xs = pre @ t # post" "distinct (map (resolved_path b c) pre)"
      "resolved_path b c t \<in> set (map (resolved_path b c) pre)"
    by blast
  from d(3) obtain t0 where t0: "t0 \<in> set pre" "resolved_path b c t0 = resolved_path b c t"
    by auto
  have "length pre + Suc (length post) = Suc j" using len unfolding d(1) by simp
  then have l: "length pre \<le> j" by simp
  have "subresources = ?xs @ drop (Suc j) subresources" by simp
  then have "subresources = pre @ t # (post @ drop (Suc j) subresources)"
    unfolding d(1) by simp
  with l d(2) t0 show ?thesis by blast
qed

lemma concat_split_from:
  "sep \<noteq> [] \<Longrightarrow> n < 0 \<Longrightarrow> concat (split_from sep cur s) = cur @ strings_Replace s sep [] n"
proof (induction sep cur s arbitrary: n rule: split_from.induct)
  case (1 sep cur s)
  show ?case
  proof (cases "s = []")
    case True
    then show ?thesis
      using "1.prems"
      by (simp add: split_from.simps [of sep cur "[]"] strings_Replace.simps [of "[]" sep "[]" n])
  next
    case False
    show ?thesis
    proof (cases "prefix sep s")
      case True
      have "n - 1 < 0" using "1.prems" by simp
      from "1.IH"(1) [OF False _ "1.prems"(1) this] True "1.prems"(1)
      have "concat (split_from sep [] (drop (length sep) s)) =
            strings_Replace (drop (length sep) s) sep [] (n - 1)" by simp
      then show ?thesis
        using False True "1.prems"
        by (simp add: split_from.simps [of sep cur s] strings_Replace.simps [of s sep "[]" n])
    next
      case nop: False
      from "1.IH"(2) [OF False _ "1.prems"] nop
      have "concat (split_from sep (cur @ [hd s]) (tl s)) =
            (cur @ [hd s]) @ strings_Replace (tl s) sep [] n" by simp
      then show ?thesis
        using False nop "1.prems"
        by (simp add: split_from.simps [of sep cur s] strings_Replace.simps [of s sep "[]" n])
    qed
  qed
qed

lemma strings_Replace_all_concat_Split:
  "old \<noteq> [] \<Longrightarrow> strings_Replace s old [] (- 1) = concat (strings_Split s old)"
  using concat_split_from [of old "- 1" "[]" s] by (simp add: strings_Split_def)

text \<open>
  C9. \<^verbatim>\<open>ParseSubresourceTag\<close> never assigns \<^verbatim>\<open>Kind\<close>, so the tags it returns have an
  empty \<^verbatim>\<open>Kind\<close>, and every descriptor in a map returned by \<^verbatim>\<open>GetSubresources\<close> has an
  empty \<^verbatim>\<open>Kind\<close>.
\<close>

theorem subresource_Kind_is_empty:
  "(\<forall>tags. ParseSubresourceTag c tag = Inr tags \<longrightarrow> st_Kind tags = []) \<and>
   (\<forall>m. GetSubresources X b c = Inr m \<longrightarrow> (\<forall>(path, sr)\<in>set m. sub_Kind sr = []))"
proof (intro conjI allI impI)
  fix tags assume "ParseSubresourceTag c tag = Inr tags"
  then show "st_Kind tags = []" by (rule ParseSubresourceTag_Kind)
next
  fix m assume m: "GetSubresources X b c = Inr m"
  show "\<forall>(path, sr)\<in>set m. sub_Kind sr = []"
  proof (cases "GetSubresourceTags X (res_Type c) = []")
    case True
    with m show ?thesis by (simp add: GetSubresources_def)
  next
    case False
    with m have "GetSubresources_loop b c (GetSubresourceTags X (res_Type c)) [] = Inr m"
      by (simp add: GetSubresources_def)
    from GetSubresources_loop_Inr [OF this] obtain srs where
      srs: "map (GetSubresources_descriptor b c) (GetSubresourceTags X (res_Type c)) = map Inr srs"
        "m = map (\<lambda>sr. (sub_Path sr, sr)) srs"
      by auto
    have "sub_Kind sr = []" if "sr \<in> set srs" for sr
    proof -
      from that have "Inr sr \<in> set (map (GetSubresources_descriptor b c)
          (GetSubresourceTags X (res_Type c)))"
        unfolding srs(1) by simp
      then obtain t where "GetSubresources_descriptor b c t = Inr sr" by auto
      from GetSubresources_descriptor_Inr [OF this] show ?thesis
        using ParseSubresourceTag_Kind by auto
    qed
    then show ?thesis unfolding srs(2) by auto
  qed
qed

theorem subresource_Kind_is_empty_witness:
  "\<exists>sr. GetSubresources sample_externals sample_builder (sample_resource Widget ''widgets'') =
         Inr [(''scale'', sr)] \<and> sub_Kind sr = []"
proof -
  have "GetSubresources sample_externals sample_builder (sample_resource Widget ''widgets'') =
      Inr [(''scale'',
            \<lparr>sub_Domain = ''example.com'', sub_Group = ''core'', sub_Version = ''v1'',
             sub_Kind = [], sub_Resource = ''widgets'', sub_Request = ''ScaleRequest'',
             sub_REST = ''ScaleREST'', sub_Path = ''scale'', sub_ImportPackage = [],
             sub_RequestType = None, sub_RESTType = None\<rparr>)]"
    by code_simp
  then show ?thesis
    using subresource_Kind_is_empty [of "sample_resource Widget ''widgets''" _ sample_externals
        sample_builder]
    by auto
qed

text \<open>
  C4. For a well-formed subresource directive on a resource with plural name \<open>R\<close>: the
  parsed path is the path value (of the last \<^verbatim>\<open>path\<close> element) with the occurrences of
  \<open>R/\<close> removed, that is the pieces between them joined; a request type without a dot
  is kept and the import path stays empty; a request type with a dot is split at its
  last dot into import path and bare name, the request becomes the base name of the
  import path, a dot and the bare name, and the import path is recorded. A resource
  with this one directive gets the map with that descriptor under its path.
\<close>

theorem subresource_path_and_request_type:
  assumes wf: "\<forall>e\<in>set (strings_Split tag '',''). length (strings_Split e ''='') = 2"
  shows "\<exists>tags sr.
     ParseSubresourceTag c tag = Inr tags \<and>
     GetSubresources_descriptor b c tag = Inr sr \<and>
     (GetSubresourceTags X (res_Type c) = [tag] \<longrightarrow>
        GetSubresources X b c = Inr [(sub_Path sr, sr)]) \<and>
     sub_Path sr = st_Path tags \<and>
     (\<forall>pre elem post.
        strings_Split tag '','' = pre @ elem # post \<and> strings_Split elem ''='' ! 0 = ''path'' \<and>
        (\<forall>e\<in>set post. strings_Split e ''='' ! 0 \<noteq> ''path'') \<longrightarrow>
        st_Path tags = strings_Replace (strings_Split elem ''='' ! 1) (res_Resource c @ ''/'') [] (- 1) \<and>
        st_Path tags = concat (strings_Split (strings_Split elem ''='' ! 1) (res_Resource c @ ''/''))) \<and>
     (\<forall>pre elem post.
        strings_Split tag '','' = pre @ elem # post \<and> strings_Split elem ''='' ! 0 = ''request'' \<and>
        (\<forall>e\<in>set post. strings_Split e ''='' ! 0 \<noteq> ''request'') \<longrightarrow>
        st_RequestKind tags = strings_Split elem ''='' ! 1) \<and>
     (\<not> strings_Contains (st_RequestKind tags) ''.'' \<longrightarrow>
        sub_Request sr = st_RequestKind tags \<and> sub_ImportPackage sr = []) \<and>
     (strings_Contains (st_RequestKind tags) ''.'' \<longrightarrow>
        (\<exists>importPackage bare.
           st_RequestKind tags = importPackage @ ''.'' @ bare \<and> CHR ''.'' \<notin> set bare \<and>
           sub_Request sr = filepath_Base importPackage @ ''.'' @ bare \<and>
           sub_ImportPackage sr = importPackage))"
proof -
  from GetSubresources_descriptor_wellformed [OF wf] obtain sr where
    sr: "GetSubresources_descriptor b c tag = Inr sr" by blast
  from GetSubresources_descriptor_Inr [OF sr] obtain tags where
    tags: "ParseSubresourceTag c tag = Inr tags" and path: "sub_Path sr = st_Path tags" and
    req: "if strings_Contains (st_RequestKind tags) ''.''
          then GetNameAndImport tags = Inr (sub_Request sr, sub_ImportPackage sr)
          else sub_Request sr = st_RequestKind tags \<and> sub_ImportPackage sr = []"
    by blast
  have loop: "ParseSubresourceTag_loop (res_Resource c) tag (strings_Split tag '','')
      \<lparr>st_Path = [], st_Kind = [], st_RequestKind = [], st_REST = []\<rparr> = Inr tags"
    using tags by (simp add: ParseSubresourceTag_def ParseSubresourceTag_tags_def)
  have one: "GetSubresources X b c = Inr [(sub_Path sr, sr)]"
    if "GetSubresourceTags X (res_Type c) = [tag]"
    using that sr by (simp add: GetSubresources_def)
  have last: "(strings_Split elem ''='' ! 0 = ''request'' \<longrightarrow>
        st_RequestKind tags = strings_Split elem ''='' ! 1) \<and>
     (strings_Split elem ''='' ! 0 = ''path'' \<longrightarrow>
        st_Path tags = strings_Replace (strings_Split elem ''='' ! 1) (res_Resource c @ ''/'') [] (- 1))"
    if s: "strings_Split tag '','' = pre @ elem # post"
      and l: "\<forall>e\<in>set post. strings_Split e ''='' ! 0 \<noteq> strings_Split elem ''='' ! 0"
    for pre elem post
    using ParseSubresourceTag_loop_last [OF wf [unfolded s] l, of "res_Resource c" tag
        "\<lparr>st_Path = [], st_Kind = [], st_RequestKind = [], st_REST = []\<rparr>"] loop
    unfolding s by auto
  have p: "st_Path tags = strings_Replace (strings_Split elem ''='' ! 1) (res_Resource c @ ''/'') [] (- 1) \<and>
        st_Path tags = concat (strings_Split (strings_Split elem ''='' ! 1) (res_Resource c @ ''/''))"
    if "strings_Split tag '','' = pre @ elem # post" "strings_Split elem ''='' ! 0 = ''path''"
      "\<forall>e\<in>set post. strings_Split e ''='' ! 0 \<noteq> ''path''"
    for pre elem post
    using last [of pre elem post] that
      strings_Replace_all_concat_Split [of "res_Resource c @ ''/''" "strings_Split elem ''='' ! 1"]
    by simp
  have r: "st_RequestKind tags = strings_Split elem ''='' ! 1"
    if "strings_Split tag '','' = pre @ elem # post" "strings_Split elem ''='' ! 0 = ''request''"
      "\<forall>e\<in>set post. strings_Split e ''='' ! 0 \<noteq> ''request''"
    for pre elem post
    using last [of pre elem post] that by simp
  have nodot: "sub_Request sr = st_RequestKind tags \<and> sub_ImportPackage sr = []"
    if "\<not> strings_Contains (st_RequestKind tags) ''.''"
    using req that by simp
  have dot: "\<exists>importPackage bare.
           st_RequestKind tags = importPackage @ ''.'' @ bare \<and> CHR ''.'' \<notin> set bare \<and>
           sub_Request sr = filepath_Base importPackage @ ''.'' @ bare \<and>
           sub_ImportPackage sr = importPackage"
    if d: "strings_Contains (st_RequestKind tags) ''.''"
  proof -
    from GetNameAndImport_dot [OF d] obtain importPackage bare where
      ib: "st_RequestKind tags = importPackage @ ''.'' @ bare" "CHR ''.'' \<notin> set bare"
        "GetNameAndImport tags = Inr (filepath_Base importPackage @ ''.'' @ bare, importPackage)"
      by blast
    from req d have "GetNameAndImport tags = Inr (sub_Request sr, sub_ImportPackage sr)"
      by simp
    with ib(3) have "(sub_Request sr, sub_ImportPackage sr) =
        (filepath_Base importPackage @ ''.'' @ bare, importPackage)"
      by (metis sum.inject(2))
    then have "sub_Request sr = filepath_Base importPackage @ ''.'' @ bare"
      "sub_ImportPackage sr = importPackage" by simp_all
    with ib(1,2) show ?thesis by blast
  qed
  show ?thesis
    apply (rule exI [of _ tags])
    apply (rule exI [of _ sr])
    using tags sr one path p r nodot dot
    apply (intro conjI)
           apply blast
          apply blast
         apply blast
        apply blast
       apply blast
      apply blast
     apply blast
    apply blast
    done
qed

theorem subresource_path_and_request_type_witness:
  "\<exists>tags sr. ParseSubresourceTag (sample_resource Gadget ''gadgets'')
       ''request=k8s.io/api/autoscaling/v1.Scale,path=gadgets/scale,rest=ScaleREST'' = Inr tags \<and>
     GetSubresources_descriptor sample_builder (sample_resource Gadget ''gadgets'')
       ''request=k8s.io/api/autoscaling/v1.Scale,path=gadgets/scale,rest=ScaleREST'' = Inr sr \<and>
     st_Path tags = ''scale'' \<and> sub_Request sr = ''v1.Scale'' \<and>
     sub_ImportPackage sr = ''k8s.io/api/autoscaling/v1''"
proof -
  let ?tag = "''request=k8s.io/api/autoscaling/v1.Scale,path=gadgets/scale,rest=ScaleREST''"
  let ?c = "sample_resource Gadget ''gadgets''"
  have wf: "\<forall>e\<in>set (strings_Split ?tag '',''). length (strings_Split e ''='') = 2"
    by code_simp
  have tags: "ParseSubresourceTag ?c ?tag =
      Inr \<lparr>st_Path = ''scale'', st_Kind = [], st_RequestKind = ''k8s.io/api/autoscaling/v1.Scale'',
           st_REST = ''ScaleREST''\<rparr>"
    by code_simp
  have d: "GetSubresources_descriptor sample_builder ?c ?tag =
      Inr \<lparr>sub_Domain = ''example.com'', sub_Group = ''core'', sub_Version = ''v1'',
           sub_Kind = [], sub_Resource = ''gadgets'', sub_Request = ''v1.Scale'',
           sub_REST = ''ScaleREST'', sub_Path = ''scale'',
           sub_ImportPackage = ''k8s.io/api/autoscaling/v1'',
           sub_RequestType = None, sub_RESTType = None\<rparr>"
    by code_simp
  show ?thesis
    using subresource_path_and_request_type [OF wf, of ?c sample_builder] tags d by auto
qed




section \<open>Properties of the index\<close>

lemma index_map_update:
  "index_map (AList.update k v m) k' = (if k' = k then v else index_map m k')"
  by (simp add: index_map_def update_conv')

lemma index_map_ensure: "index_map (ensure k m) k' = index_map m k'"
  by (auto simp: ensure_def index_map_def update_conv')

lemma lookup3_ensure2: "lookup3 (ensure2 a b m) a' b' c' = lookup3 m a' b' c'"
  by (simp add: lookup3_def ensure2_def Let_def index_map_update index_map_ensure)

lemma lookup3_put3:
  "lookup3 (put3 a b c x m) a' b' c' =
     (if a' = a \<and> b' = b \<and> c' = c then Some x else lookup3 m a' b' c')"
  by (simp add: lookup3_def put3_def index_map_update update_conv')

lemma GetSubresources_descriptor_Domain:
  "b_Domain b = b_Domain b0 \<Longrightarrow>
   GetSubresources_descriptor b c t = GetSubresources_descriptor b0 c t"
  by (simp add: GetSubresources_descriptor_def Let_def split: sum.splits)

lemma GetSubresources_loop_Domain:
  "b_Domain b = b_Domain b0 \<Longrightarrow> GetSubresources_loop b c ts r = GetSubresources_loop b0 c ts r"
  by (induction ts arbitrary: r)
    (simp_all add: GetSubresources_descriptor_Domain [of b b0] split: sum.splits option.splits)

lemma GetSubresources_Domain:
  "b_Domain b = b_Domain b0 \<Longrightarrow> GetSubresources X b c = GetSubresources X b0 c"
  by (simp add: GetSubresources_def Let_def GetSubresources_loop_Domain [of b b0])


lemma ParseIndex_step_other:
  assumes "\<not> IsAPIResource X c"
  shows "\<exists>b'. ParseIndex_step X b c = Inr b' \<and> b_resources b' = b_resources b \<and>
     ByGroupKindVersion b' = ByGroupKindVersion b \<and>
     ByGroupVersionKind b' = ByGroupVersionKind b \<and> b_Domain b' = b_Domain b"
  using assms by (simp add: ParseIndex_step_def Let_def)

lemma ParseIndex_step_resource:
  assumes "IsAPIResource X c" and "GetResourceTag X c = Inr tag" and "ParseResourceTag tag = Inr rt"
  shows "ParseIndex_step X b c =
     (let r = ParseIndex_resource X (b_Domain b) c rt;
          p = length (b_resources b);
          b2 = b\<lparr>SubByGroupVersionKind :=
                   (if IsAPISubresource X c then
                      put3 (GetGroup X c) (GetVersion X c (GetGroup X c))
                        (GetKind X c (GetGroup X c)) c
                        (ensure2 (GetGroup X c) (GetVersion X c (GetGroup X c))
                           (SubByGroupVersionKind b))
                    else SubByGroupVersionKind b),
                 b_resources := b_resources b @ [r],
                 ByGroupKindVersion :=
                   put3 (res_Group r) (res_Kind r) (res_Version r) p
                     (ensure2 (res_Group r) (res_Kind r) (ByGroupKindVersion b)),
                 ByGroupVersionKind :=
                   put3 (res_Group r) (res_Version r) (res_Kind r) p
                     (ensure2 (res_Group r) (res_Version r) (ByGroupVersionKind b))\<rparr>
      in if \<not> HasSubresource X c then Inr b2
         else (case GetSubresources X b r of
                 Inl e \<Rightarrow> Inl e
               | Inr subresources \<Rightarrow>
                   Inr (b2\<lparr>b_resources :=
                             b_resources b @ [r\<lparr>res_Subresources := subresources\<rparr>]\<rparr>)))"
proof -
  define G where "G = (\<lambda>d. GetSubresources X
     \<lparr>b_Order = [], b_Domain = d, b_resources = [], ByGroupKindVersion = [],
      ByGroupVersionKind = [], SubByGroupVersionKind = []\<rparr>)"
  have s: "GetSubresources X b1 = G (b_Domain b1)" for b1
    unfolding G_def by (rule ext, rule GetSubresources_Domain) simp
  show ?thesis
    using assms unfolding ParseIndex_step_def ParseIndex_resource_def Let_def s
    by (simp cong: sum.case_cong)
qed


lemma ParseIndex_step_tag_fails:
  "IsAPIResource X c \<Longrightarrow> GetResourceTag X c = Inl e \<Longrightarrow> ParseIndex_step X b c = Inl e"
  by (simp add: ParseIndex_step_def Let_def)

lemma ParseIndex_step_parse_fails:
  "IsAPIResource X c \<Longrightarrow> GetResourceTag X c = Inr tag \<Longrightarrow> ParseResourceTag tag = Inl e \<Longrightarrow>
   ParseIndex_step X b c = Inl e"
  by (simp add: ParseIndex_step_def Let_def)

lemma ParseIndex_step_Inr:
  assumes res: "IsAPIResource X c" and step: "ParseIndex_step X b c = Inr b'"
  shows "\<exists>rt subs.
     ParseResourceTag (GetTag X (t_CommentLines c) ''resource'' '':'') = Inr rt \<and>
     b_resources b' =
       b_resources b @ [(ParseIndex_resource X (b_Domain b) c rt)\<lparr>res_Subresources := subs\<rparr>] \<and>
     b_Domain b' = b_Domain b \<and>
     ByGroupKindVersion b' =
       put3 (GetGroup X c) (GetKind X c (GetGroup X c)) (GetVersion X c (GetGroup X c))
         (length (b_resources b))
         (ensure2 (GetGroup X c) (GetKind X c (GetGroup X c)) (ByGroupKindVersion b)) \<and>
     ByGroupVersionKind b' =
       put3 (GetGroup X c) (GetVersion X c (GetGroup X c)) (GetKind X c (GetGroup X c))
         (length (b_resources b))
         (ensure2 (GetGroup X c) (GetVersion X c (GetGroup X c)) (ByGroupVersionKind b))"
proof -
  let ?tag = "GetTag X (t_CommentLines c) ''resource'' '':''"
  have tag: "GetResourceTag X c = Inr ?tag"
  proof (cases "GetResourceTag X c")
    case (Inl e)
    from ParseIndex_step_tag_fails [OF res Inl] step show ?thesis by simp
  next
    case (Inr t)
    then show ?thesis by (simp add: GetResourceTag_def Let_def split: if_splits)
  qed
  obtain rt where rt: "ParseResourceTag ?tag = Inr rt"
  proof (cases "ParseResourceTag ?tag")
    case (Inl e)
    from ParseIndex_step_parse_fails [OF res tag Inl] step show ?thesis by simp
  next
    case (Inr rt)
    then show ?thesis by (rule that)
  qed
  have g: "res_Group (ParseIndex_resource X d c rt) = GetGroup X c"
    "res_Kind (ParseIndex_resource X d c rt) = GetKind X c (GetGroup X c)"
    "res_Version (ParseIndex_resource X d c rt) = GetVersion X c (GetGroup X c)"
    "res_Subresources (ParseIndex_resource X d c rt) = []" for d
    by (simp_all add: ParseIndex_resource_def Let_def)
  show ?thesis
  proof (cases "HasSubresource X c")
    case False
    with ParseIndex_step_resource [OF res tag rt, of b] step have "b' = b\<lparr>SubByGroupVersionKind :=
                   (if IsAPISubresource X c then
                      put3 (GetGroup X c) (GetVersion X c (GetGroup X c))
                        (GetKind X c (GetGroup X c)) c
                        (ensure2 (GetGroup X c) (GetVersion X c (GetGroup X c))
                           (SubByGroupVersionKind b))
                    else SubByGroupVersionKind b),
                 b_resources := b_resources b @ [ParseIndex_resource X (b_Domain b) c rt],
                 ByGroupKindVersion :=
                   put3 (GetGroup X c) (GetKind X c (GetGroup X c)) (GetVersion X c (GetGroup X c))
                     (length (b_resources b))
                     (ensure2 (GetGroup X c) (GetKind X c (GetGroup X c)) (ByGroupKindVersion b)),
                 ByGroupVersionKind :=
                   put3 (GetGroup X c) (GetVersion X c (GetGroup X c)) (GetKind X c (GetGroup X c))
                     (length (b_resources b))
                     (ensure2 (GetGroup X c) (GetVersion X c (GetGroup X c)) (ByGroupVersionKind b))\<rparr>"
      by (simp add: Let_def g)
    moreover have "ParseIndex_resource X (b_Domain b) c rt =
        (ParseIndex_resource X (b_Domain b) c rt)\<lparr>res_Subresources := []\<rparr>"
      using g(4) [of "b_Domain b"] by simp
    ultimately show ?thesis using rt
      by (intro exI [of _ rt] exI [of _ "[]"]) simp
  next
    case True
    with ParseIndex_step_resource [OF res tag rt, of b] step obtain subs where
      "GetSubresources X b (ParseIndex_resource X (b_Domain b) c rt) = Inr subs"
      by (cases "GetSubresources X b (ParseIndex_resource X (b_Domain b) c rt)")
        (simp_all add: Let_def)
    with True ParseIndex_step_resource [OF res tag rt, of b] step have "b' = b\<lparr>SubByGroupVersionKind :=
                   (if IsAPISubresource X c then
                      put3 (GetGroup X c) (GetVersion X c (GetGroup X c))
                        (GetKind X c (GetGroup X c)) c
                        (ensure2 (GetGroup X c) (GetVersion X c (GetGroup X c))
                           (SubByGroupVersionKind b))
                    else SubByGroupVersionKind b),
                 b_resources := b_resources b @
                   [(ParseIndex_resource X (b_Domain b) c rt)\<lparr>res_Subresources := subs\<rparr>],
                 ByGroupKindVersion :=
                   put3 (GetGroup X c) (GetKind X c (GetGroup X c)) (GetVersion X c (GetGroup X c))
                     (length (b_resources b))
                     (ensure2 (GetGroup X c) (GetKind X c (GetGroup X c)) (ByGroupKindVersion b)),
                 ByGroupVersionKind :=
                   put3 (GetGroup X c) (GetVersion X c (GetGroup X c)) (GetKind X c (GetGroup X c))
                     (length (b_resources b))
                     (ensure2 (GetGroup X c) (GetVersion X c (GetGroup X c)) (ByGroupVersionKind b))\<rparr>"
      by (simp add: Let_def g)
    then show ?thesis using rt
      by (intro exI [of _ rt] exI [of _ subs]) simp
  qed
qed

lemma ParseIndex_step_lookup:
  assumes "ParseIndex_step X b c = Inr b'"
  shows "lookup3 (ByGroupVersionKind b') g v k =
       (if maps_to X g v k c then Some (length (b_resources b))
        else lookup3 (ByGroupVersionKind b) g v k) \<and>
     lookup3 (ByGroupKindVersion b') g k v =
       (if maps_to X g v k c then Some (length (b_resources b))
        else lookup3 (ByGroupKindVersion b) g k v)"
proof (cases "IsAPIResource X c")
  case False
  with ParseIndex_step_other [OF False, of b] assms show ?thesis
    by (auto simp: maps_to_def)
next
  case True
  from ParseIndex_step_Inr [OF True assms] have
    "ByGroupKindVersion b' =
       put3 (GetGroup X c) (GetKind X c (GetGroup X c)) (GetVersion X c (GetGroup X c))
         (length (b_resources b))
         (ensure2 (GetGroup X c) (GetKind X c (GetGroup X c)) (ByGroupKindVersion b))"
    "ByGroupVersionKind b' =
       put3 (GetGroup X c) (GetVersion X c (GetGroup X c)) (GetKind X c (GetGroup X c))
         (length (b_resources b))
         (ensure2 (GetGroup X c) (GetVersion X c (GetGroup X c)) (ByGroupVersionKind b))"
    by blast+
  with True show ?thesis
    by (auto simp: lookup3_put3 lookup3_ensure2 maps_to_def)
qed

lemma ParseIndex_step_resources:
  assumes "ParseIndex_step X b c = Inr b'"
  shows "b_Domain b' = b_Domain b \<and>
     (\<not> IsAPIResource X c \<longrightarrow> b_resources b' = b_resources b) \<and>
     (IsAPIResource X c \<longrightarrow>
        (\<exists>r rt. b_resources b' = b_resources b @ [r] \<and> res_Type r = c \<and>
           ParseResourceTag (GetTag X (t_CommentLines c) ''resource'' '':'') = Inr rt \<and>
           res_Group r = GetGroup X c \<and> res_Kind r = GetKind X c (GetGroup X c) \<and>
           res_Strategy r =
             (if rt_Strategy rt = [] then res_Group r @ ''.'' @ res_Kind r @ ''Strategy''
              else rt_Strategy rt) \<and>
           res_StatusStrategy r =
             strings_TrimSuffix (res_Strategy r) ''Strategy'' @ ''StatusStrategy''))"
proof (cases "IsAPIResource X c")
  case False
  with ParseIndex_step_other [OF False, of b] assms show ?thesis by auto
next
  case True
  from ParseIndex_step_Inr [OF True assms] obtain rt subs where
    rt: "ParseResourceTag (GetTag X (t_CommentLines c) ''resource'' '':'') = Inr rt"
      "b_resources b' =
         b_resources b @ [(ParseIndex_resource X (b_Domain b) c rt)\<lparr>res_Subresources := subs\<rparr>]"
      "b_Domain b' = b_Domain b"
    by blast
  let ?r = "(ParseIndex_resource X (b_Domain b) c rt)\<lparr>res_Subresources := subs\<rparr>"
  have "res_Type ?r = c \<and> res_Group ?r = GetGroup X c \<and>
      res_Kind ?r = GetKind X c (GetGroup X c) \<and>
      res_Strategy ?r =
        (if rt_Strategy rt = [] then res_Group ?r @ ''.'' @ res_Kind ?r @ ''Strategy''
         else rt_Strategy rt) \<and>
      res_StatusStrategy ?r =
        strings_TrimSuffix (res_Strategy ?r) ''Strategy'' @ ''StatusStrategy''"
    by (simp add: ParseIndex_resource_def Let_def)
  with rt True show ?thesis by blast
qed

lemma ParseIndex_loop_append:
  "ParseIndex_loop X (pre @ rest) b = Inr b' \<Longrightarrow>
   \<exists>b1. ParseIndex_loop X pre b = Inr b1 \<and> ParseIndex_loop X rest b1 = Inr b'"
  by (induction pre arbitrary: b) (auto split: sum.splits)

lemma ParseIndex_loop_dual:
  "ParseIndex_loop X cs b = Inr b' \<Longrightarrow>
   (\<forall>g k v. lookup3 (ByGroupKindVersion b) g k v = lookup3 (ByGroupVersionKind b) g v k) \<Longrightarrow>
   lookup3 (ByGroupKindVersion b') g k v = lookup3 (ByGroupVersionKind b') g v k"
proof (induction cs arbitrary: b)
  case Nil
  then show ?case by simp
next
  case (Cons c cs)
  from Cons.prems(1) obtain b1 where
    b1: "ParseIndex_step X b c = Inr b1" "ParseIndex_loop X cs b1 = Inr b'"
    by (auto split: sum.splits)
  have "\<forall>g k v. lookup3 (ByGroupKindVersion b1) g k v = lookup3 (ByGroupVersionKind b1) g v k"
    using ParseIndex_step_lookup [OF b1(1)] Cons.prems(2) by simp
  from Cons.IH [OF b1(2) this] show ?case .
qed

lemma ParseIndex_loop_keeps:
  "ParseIndex_loop X cs b = Inr b' \<Longrightarrow> \<forall>c\<in>set cs. \<not> maps_to X g v k c \<Longrightarrow>
   lookup3 (ByGroupVersionKind b') g v k = lookup3 (ByGroupVersionKind b) g v k"
proof (induction cs arbitrary: b)
  case Nil
  then show ?case by simp
next
  case (Cons c cs)
  from Cons.prems(1) obtain b1 where
    b1: "ParseIndex_step X b c = Inr b1" "ParseIndex_loop X cs b1 = Inr b'"
    by (auto split: sum.splits)
  have "lookup3 (ByGroupVersionKind b1) g v k = lookup3 (ByGroupVersionKind b) g v k"
    using ParseIndex_step_lookup [OF b1(1), of g v k] Cons.prems(2) by simp
  with Cons.IH [OF b1(2)] Cons.prems(2) show ?case by simp
qed

lemma ParseIndex_loop_resources:
  "ParseIndex_loop X cs b = Inr b' \<Longrightarrow>
   \<exists>rs. b_resources b' = b_resources b @ rs \<and> b_Domain b' = b_Domain b \<and>
     map res_Type rs = filter (IsAPIResource X) cs \<and>
     (\<forall>r\<in>set rs. \<exists>rt.
        ParseResourceTag (GetTag X (t_CommentLines (res_Type r)) ''resource'' '':'') = Inr rt \<and>
        res_Group r = GetGroup X (res_Type r) \<and>
        res_Kind r = GetKind X (res_Type r) (GetGroup X (res_Type r)) \<and>
        res_Strategy r =
          (if rt_Strategy rt = [] then res_Group r @ ''.'' @ res_Kind r @ ''Strategy''
           else rt_Strategy rt) \<and>
        res_StatusStrategy r =
          strings_TrimSuffix (res_Strategy r) ''Strategy'' @ ''StatusStrategy'')"
proof (induction cs arbitrary: b)
  case Nil
  then show ?case by simp
next
  case (Cons c cs)
  from Cons.prems(1) obtain b1 where
    b1: "ParseIndex_step X b c = Inr b1" "ParseIndex_loop X cs b1 = Inr b'"
    by (auto split: sum.splits)
  from Cons.IH [OF b1(2)] obtain rs where
    rs: "b_resources b' = b_resources b1 @ rs" "b_Domain b' = b_Domain b1"
      "map res_Type rs = filter (IsAPIResource X) cs"
      "\<forall>r\<in>set rs. \<exists>rt.
        ParseResourceTag (GetTag X (t_CommentLines (res_Type r)) ''resource'' '':'') = Inr rt \<and>
        res_Group r = GetGroup X (res_Type r) \<and>
        res_Kind r = GetKind X (res_Type r) (GetGroup X (res_Type r)) \<and>
        res_Strategy r =
          (if rt_Strategy rt = [] then res_Group r @ ''.'' @ res_Kind r @ ''Strategy''
           else rt_Strategy rt) \<and>
        res_StatusStrategy r =
          strings_TrimSuffix (res_Strategy r) ''Strategy'' @ ''StatusStrategy''"
    by blast
  show ?case
  proof (cases "IsAPIResource X c")
    case False
    with ParseIndex_step_resources [OF b1(1)] rs show ?thesis by auto
  next
    case True
    with ParseIndex_step_resources [OF b1(1)] obtain r rt where
      r: "b_resources b1 = b_resources b @ [r]" "res_Type r = c"
        "ParseResourceTag (GetTag X (t_CommentLines c) ''resource'' '':'') = Inr rt"
        "res_Group r = GetGroup X c" "res_Kind r = GetKind X c (GetGroup X c)"
        "res_Strategy r =
             (if rt_Strategy rt = [] then res_Group r @ ''.'' @ res_Kind r @ ''Strategy''
              else rt_Strategy rt)"
        "res_StatusStrategy r =
             strings_TrimSuffix (res_Strategy r) ''Strategy'' @ ''StatusStrategy''"
      by blast
    have a: "b_resources b' = b_resources b @ (r # rs)" using rs(1) r(1) by simp
    have d: "b_Domain b' = b_Domain b" using rs(2) ParseIndex_step_resources [OF b1(1)] by simp
    have m: "map res_Type (r # rs) = filter (IsAPIResource X) (c # cs)"
      using rs(3) r(2) True by simp
    have q: "\<forall>r\<in>set (r # rs). \<exists>rt.
        ParseResourceTag (GetTag X (t_CommentLines (res_Type r)) ''resource'' '':'') = Inr rt \<and>
        res_Group r = GetGroup X (res_Type r) \<and>
        res_Kind r = GetKind X (res_Type r) (GetGroup X (res_Type r)) \<and>
        res_Strategy r =
          (if rt_Strategy rt = [] then res_Group r @ ''.'' @ res_Kind r @ ''Strategy''
           else rt_Strategy rt) \<and>
        res_StatusStrategy r =
          strings_TrimSuffix (res_Strategy r) ''Strategy'' @ ''StatusStrategy''"
      using rs(4) r(2-7) by auto
    from a d m q show ?thesis by blast
  qed
qed

lemma ParseIndex_loop_bounds:
  "ParseIndex_loop X cs b = Inr b' \<Longrightarrow> lookup3 (ByGroupVersionKind b') g v k = Some p \<Longrightarrow>
   lookup3 (ByGroupVersionKind b) g v k = Some p \<or>
   (length (b_resources b) \<le> p \<and> p < length (b_resources b'))"
proof (induction cs arbitrary: b)
  case Nil
  then show ?case by simp
next
  case (Cons c cs)
  from Cons.prems(1) obtain b1 where
    b1: "ParseIndex_step X b c = Inr b1" "ParseIndex_loop X cs b1 = Inr b'"
    by (auto split: sum.splits)
  from ParseIndex_loop_resources [OF b1(2)] have le: "length (b_resources b1) \<le> length (b_resources b')"
    by auto
  from ParseIndex_step_resources [OF b1(1)] have le0: "length (b_resources b) \<le> length (b_resources b1)"
    and one: "maps_to X g v k c \<longrightarrow> length (b_resources b) < length (b_resources b1)"
    by (auto simp: maps_to_def)
  from Cons.IH [OF b1(2) Cons.prems(2)]
  show ?case
  proof
    assume "lookup3 (ByGroupVersionKind b1) g v k = Some p"
    with ParseIndex_step_lookup [OF b1(1), of g v k] one le show ?thesis
      by (auto split: if_splits)
  next
    assume "length (b_resources b1) \<le> p \<and> p < length (b_resources b')"
    with le0 show ?thesis by simp
  qed
qed

lemma ParseIndex_loop_last:
  assumes loop: "ParseIndex_loop X (pre @ c # post) b = Inr b'"
    and c: "maps_to X g v k c" and post: "\<forall>c'\<in>set post. \<not> maps_to X g v k c'"
  shows "lookup3 (ByGroupVersionKind b') g v k =
       Some (length (b_resources b) + length (filter (IsAPIResource X) pre)) \<and>
     res_Type (b_resources b' ! (length (b_resources b) + length (filter (IsAPIResource X) pre))) = c"
proof -
  from ParseIndex_loop_append [OF loop] obtain b1 where
    b1: "ParseIndex_loop X pre b = Inr b1" "ParseIndex_loop X (c # post) b1 = Inr b'" by blast
  from b1(2) obtain b2 where
    b2: "ParseIndex_step X b1 c = Inr b2" "ParseIndex_loop X post b2 = Inr b'"
    by (auto split: sum.splits)
  from ParseIndex_loop_resources [OF b1(1)] obtain rs where
    rs: "b_resources b1 = b_resources b @ rs" "map res_Type rs = filter (IsAPIResource X) pre"
    by blast
  have len: "length (b_resources b1) = length (b_resources b) + length (filter (IsAPIResource X) pre)"
    using rs by (metis length_append length_map)
  from c have res: "IsAPIResource X c" by (simp add: maps_to_def)
  from ParseIndex_step_resources [OF b2(1)] res obtain r where
    r: "b_resources b2 = b_resources b1 @ [r]" "res_Type r = c" by blast
  from ParseIndex_loop_resources [OF b2(2)] obtain rs' where
    rs': "b_resources b' = b_resources b2 @ rs'" by blast
  have "lookup3 (ByGroupVersionKind b2) g v k = Some (length (b_resources b1))"
    using ParseIndex_step_lookup [OF b2(1), of g v k] c by simp
  with ParseIndex_loop_keeps [OF b2(2) post]
  have l: "lookup3 (ByGroupVersionKind b') g v k = Some (length (b_resources b1))" by simp
  have "b_resources b' ! length (b_resources b1) = r"
    unfolding rs' r(1) by (simp add: nth_append)
  with l r(2) show ?thesis unfolding len by simp
qed

lemma ParseIndex_step_failure:
  "ParseIndex_step X (b\<lparr>ByGroupKindVersion := gkv, ByGroupVersionKind := gvk\<rparr>) c = Inl e \<longleftrightarrow>
   ParseIndex_step X b c = Inl e"
proof (cases "IsAPIResource X c")
  case False
  from ParseIndex_step_other [OF False] show ?thesis by (metis sum.distinct(1))
next
  case res: True
  show ?thesis
  proof (cases "GetResourceTag X c")
    case (Inl e')
    from ParseIndex_step_tag_fails [OF res Inl] show ?thesis by simp
  next
    case tag: (Inr tag)
    show ?thesis
    proof (cases "ParseResourceTag tag")
      case (Inl e')
      from ParseIndex_step_parse_fails [OF res tag Inl] show ?thesis by simp
    next
      case rt: (Inr rt)
      have d: "GetSubresources X (b\<lparr>ByGroupKindVersion := gkv, ByGroupVersionKind := gvk\<rparr>) r =
          GetSubresources X b r" for r
        by (rule GetSubresources_Domain) simp
      show ?thesis
        unfolding ParseIndex_step_resource [OF res tag rt] Let_def d
        by (simp split: sum.splits)
    qed
  qed
qed

lemma strings_TrimSuffix_append: "strings_TrimSuffix (p @ suf) suf = p"
  by (simp add: strings_TrimSuffix_def suffix_def)

lemma strings_TrimSuffix_none: "\<not> suffix suf s \<Longrightarrow> strings_TrimSuffix s suf = s"
  by (simp add: strings_TrimSuffix_def)

text \<open>
  C1. After \<^verbatim>\<open>ParseIndex\<close> the store holds one resource for each declaration
  classified as an API resource, in the order of the declarations, and the indices
  refer to these resources only. For each of them: when the parsed \<^verbatim>\<open>+resource\<close> tag has
  an empty strategy, the strategy is \<^verbatim>\<open><group>.<Kind>Strategy\<close>, otherwise it is the
  parsed one; and the status strategy is the strategy with a trailing \<^verbatim>\<open>Strategy\<close>
  stripped and \<^verbatim>\<open>StatusStrategy\<close> appended.
\<close>

theorem ParseIndex_strategy_defaults:
  assumes "ParseIndex X b = Inr b'"
  shows "\<exists>rs. b_resources b' = b_resources b @ rs \<and>
     map res_Type rs = filter (IsAPIResource X) (b_Order b) \<and>
     (\<forall>r\<in>set rs. \<exists>rt.
        ParseResourceTag (GetTag X (t_CommentLines (res_Type r)) ''resource'' '':'') = Inr rt \<and>
        res_Group r = GetGroup X (res_Type r) \<and>
        res_Kind r = GetKind X (res_Type r) (GetGroup X (res_Type r)) \<and>
        (rt_Strategy rt = [] \<longrightarrow> res_Strategy r = res_Group r @ ''.'' @ res_Kind r @ ''Strategy'') \<and>
        (rt_Strategy rt \<noteq> [] \<longrightarrow> res_Strategy r = rt_Strategy rt) \<and>
        (\<forall>p. res_Strategy r = p @ ''Strategy'' \<longrightarrow> res_StatusStrategy r = p @ ''StatusStrategy'') \<and>
        (\<not> suffix ''Strategy'' (res_Strategy r) \<longrightarrow>
           res_StatusStrategy r = res_Strategy r @ ''StatusStrategy'')) \<and>
     (\<forall>g v k p. lookup3 (ByGroupVersionKind b') g v k = Some p \<longrightarrow>
        length (b_resources b) \<le> p \<and> p < length (b_resources b'))"
proof -
  let ?b0 = "b\<lparr>ByGroupVersionKind := [], ByGroupKindVersion := [], SubByGroupVersionKind := []\<rparr>"
  from assms have loop: "ParseIndex_loop X (b_Order b) ?b0 = Inr b'"
    by (simp add: ParseIndex_def)
  from ParseIndex_loop_resources [OF loop] obtain rs where
    rs: "b_resources b' = b_resources b @ rs"
      "map res_Type rs = filter (IsAPIResource X) (b_Order b)"
      "\<forall>r\<in>set rs. \<exists>rt.
        ParseResourceTag (GetTag X (t_CommentLines (res_Type r)) ''resource'' '':'') = Inr rt \<and>
        res_Group r = GetGroup X (res_Type r) \<and>
        res_Kind r = GetKind X (res_Type r) (GetGroup X (res_Type r)) \<and>
        res_Strategy r =
          (if rt_Strategy rt = [] then res_Group r @ ''.'' @ res_Kind r @ ''Strategy''
           else rt_Strategy rt) \<and>
        res_StatusStrategy r =
          strings_TrimSuffix (res_Strategy r) ''Strategy'' @ ''StatusStrategy''"
    by auto
  have each: "\<exists>rt.
        ParseResourceTag (GetTag X (t_CommentLines (res_Type r)) ''resource'' '':'') = Inr rt \<and>
        res_Group r = GetGroup X (res_Type r) \<and>
        res_Kind r = GetKind X (res_Type r) (GetGroup X (res_Type r)) \<and>
        (rt_Strategy rt = [] \<longrightarrow> res_Strategy r = res_Group r @ ''.'' @ res_Kind r @ ''Strategy'') \<and>
        (rt_Strategy rt \<noteq> [] \<longrightarrow> res_Strategy r = rt_Strategy rt) \<and>
        (\<forall>p. res_Strategy r = p @ ''Strategy'' \<longrightarrow> res_StatusStrategy r = p @ ''StatusStrategy'') \<and>
        (\<not> suffix ''Strategy'' (res_Strategy r) \<longrightarrow>
           res_StatusStrategy r = res_Strategy r @ ''StatusStrategy'')"
    if "r \<in> set rs" for r
  proof -
    from rs(3) that obtain rt where
      rt: "ParseResourceTag (GetTag X (t_CommentLines (res_Type r)) ''resource'' '':'') = Inr rt"
        "res_Group r = GetGroup X (res_Type r)"
        "res_Kind r = GetKind X (res_Type r) (GetGroup X (res_Type r))"
        "res_Strategy r =
          (if rt_Strategy rt = [] then res_Group r @ ''.'' @ res_Kind r @ ''Strategy''
           else rt_Strategy rt)"
        "res_StatusStrategy r =
          strings_TrimSuffix (res_Strategy r) ''Strategy'' @ ''StatusStrategy''"
      by blast
    have a: "\<forall>p. res_Strategy r = p @ ''Strategy'' \<longrightarrow>
        res_StatusStrategy r = p @ ''StatusStrategy''"
      using rt(5) strings_TrimSuffix_append [of _ "''Strategy''"] by auto
    have n: "\<not> suffix ''Strategy'' (res_Strategy r) \<longrightarrow>
        res_StatusStrategy r = res_Strategy r @ ''StatusStrategy''"
      using rt(5) strings_TrimSuffix_none [of "''Strategy''" "res_Strategy r"] by auto
    from rt(1-4) a n show ?thesis by (intro exI [of _ rt]) simp
  qed
  have bounds: "length (b_resources b) \<le> p \<and> p < length (b_resources b')"
    if "lookup3 (ByGroupVersionKind b') g v k = Some p" for g v k p
    using ParseIndex_loop_bounds [OF loop that] by (simp add: lookup3_def index_map_def)
  from rs(1,2) each bounds show ?thesis by blast
qed

text \<open>
  C6. After \<^verbatim>\<open>ParseIndex\<close> the two indices hold the same content:
  \<^verbatim>\<open>ByGroupKindVersion[g][k][v]\<close> and \<^verbatim>\<open>ByGroupVersionKind[g][v][k]\<close> are the same
  reference, or both absent. The entry is absent exactly when no declaration maps to
  \<open>(g, v, k)\<close>; otherwise it refers to the resource of the last declaration that maps to
  it, whatever came before. And whether a turn of the loop fails does not depend on
  what the indices hold: a second declaration for a triple raises no error.
\<close>

theorem ParseIndex_dual_indices:
  assumes "ParseIndex X b = Inr b'"
  shows "lookup3 (ByGroupKindVersion b') g k v = lookup3 (ByGroupVersionKind b') g v k \<and>
     (lookup3 (ByGroupVersionKind b') g v k = None \<longleftrightarrow>
        \<not> (\<exists>c\<in>set (b_Order b). maps_to X g v k c)) \<and>
     (\<forall>pre c post.
        b_Order b = pre @ c # post \<and> maps_to X g v k c \<and>
        (\<forall>c'\<in>set post. \<not> maps_to X g v k c') \<longrightarrow>
        lookup3 (ByGroupVersionKind b') g v k =
          Some (length (b_resources b) + length (filter (IsAPIResource X) pre)) \<and>
        res_Type (b_resources b' !
          (length (b_resources b) + length (filter (IsAPIResource X) pre))) = c) \<and>
     (\<forall>b0 c gkv gvk e.
        ParseIndex_step X (b0\<lparr>ByGroupKindVersion := gkv, ByGroupVersionKind := gvk\<rparr>) c = Inl e
        \<longleftrightarrow> ParseIndex_step X b0 c = Inl e)"
proof -
  let ?b0 = "b\<lparr>ByGroupVersionKind := [], ByGroupKindVersion := [], SubByGroupVersionKind := []\<rparr>"
  from assms have loop: "ParseIndex_loop X (b_Order b) ?b0 = Inr b'"
    by (simp add: ParseIndex_def)
  have empty: "lookup3 (ByGroupVersionKind ?b0) g v k = None" for g v k
    by (simp add: lookup3_def index_map_def)
  have dual: "lookup3 (ByGroupKindVersion b') g k v = lookup3 (ByGroupVersionKind b') g v k"
    by (rule ParseIndex_loop_dual [OF loop]) (simp add: lookup3_def index_map_def)
  have last: "lookup3 (ByGroupVersionKind b') g v k =
          Some (length (b_resources b) + length (filter (IsAPIResource X) pre)) \<and>
        res_Type (b_resources b' !
          (length (b_resources b) + length (filter (IsAPIResource X) pre))) = c"
    if "b_Order b = pre @ c # post" "maps_to X g v k c" "\<forall>c'\<in>set post. \<not> maps_to X g v k c'"
    for pre c post
    using ParseIndex_loop_last [OF loop [unfolded that(1)] that(2,3)] by simp
  have none: "lookup3 (ByGroupVersionKind b') g v k = None \<longleftrightarrow>
        \<not> (\<exists>c\<in>set (b_Order b). maps_to X g v k c)"
  proof (cases "\<exists>c\<in>set (b_Order b). maps_to X g v k c")
    case True
    from split_list_last_prop [OF True] obtain pre c post where
      "b_Order b = pre @ c # post" "maps_to X g v k c" "\<forall>c'\<in>set post. \<not> maps_to X g v k c'"
      by blast
    from last [OF this] True show ?thesis by simp
  next
    case False
    then have "\<forall>c\<in>set (b_Order b). \<not> maps_to X g v k c" by blast
    from ParseIndex_loop_keeps [OF loop this] empty False show ?thesis by simp
  qed
  from dual none last ParseIndex_step_failure show ?thesis by blast
qed


theorem ParseIndex_strategy_defaults_witness:
  "\<exists>b' rs. ParseIndex sample_externals sample_builder = Inr b' \<and>
     b_resources b' = rs \<and> map res_Type rs = [Widget, Widget2] \<and>
     map res_Strategy rs = [''core.WidgetStrategy'', ''core.WidgetStrategy''] \<and>
     map res_StatusStrategy rs = [''core.WidgetStatusStrategy'', ''core.WidgetStatusStrategy'']"
proof -
  have "case ParseIndex sample_externals sample_builder of
          Inl e \<Rightarrow> False
        | Inr b' \<Rightarrow>
            map res_Strategy (b_resources b') = [''core.WidgetStrategy'', ''core.WidgetStrategy''] \<and>
            map res_StatusStrategy (b_resources b') =
              [''core.WidgetStatusStrategy'', ''core.WidgetStatusStrategy'']"
    by code_simp
  then obtain b' where b': "ParseIndex sample_externals sample_builder = Inr b'"
    and s: "map res_Strategy (b_resources b') = [''core.WidgetStrategy'', ''core.WidgetStrategy'']"
      "map res_StatusStrategy (b_resources b') =
         [''core.WidgetStatusStrategy'', ''core.WidgetStatusStrategy'']"
    by (cases "ParseIndex sample_externals sample_builder") auto
  have f: "filter (IsAPIResource sample_externals) (b_Order sample_builder) = [Widget, Widget2]"
    by code_simp
  have e: "b_resources sample_builder = []" by (simp add: sample_builder_def)
  from ParseIndex_strategy_defaults [OF b'] obtain rs where
    "b_resources b' = b_resources sample_builder @ rs"
    "map res_Type rs = filter (IsAPIResource sample_externals) (b_Order sample_builder)"
    by blast
  with b' s f e show ?thesis by simp
qed

theorem ParseIndex_dual_indices_witness:
  "\<exists>b'. ParseIndex sample_externals sample_builder = Inr b' \<and>
     lookup3 (ByGroupVersionKind b') ''core'' ''v1'' ''Widget'' = Some 1 \<and>
     lookup3 (ByGroupKindVersion b') ''core'' ''Widget'' ''v1'' = Some 1 \<and>
     res_Type (b_resources b' ! 1) = Widget2"
proof -
  have "case ParseIndex sample_externals sample_builder of Inl e \<Rightarrow> False | Inr b' \<Rightarrow> True"
    by code_simp
  then obtain b' where b': "ParseIndex sample_externals sample_builder = Inr b'"
    by (cases "ParseIndex sample_externals sample_builder") auto
  have order: "b_Order sample_builder = [Widget] @ Widget2 # [WidgetStatus]"
    by (simp add: sample_builder_def)
  have c: "maps_to sample_externals ''core'' ''v1'' ''Widget'' Widget2"
    by code_simp
  have post: "\<forall>c'\<in>set [WidgetStatus]. \<not> maps_to sample_externals ''core'' ''v1'' ''Widget'' c'"
    by code_simp
  have pre: "length (b_resources sample_builder) +
      length (filter (IsAPIResource sample_externals) [Widget]) = 1"
    by code_simp
  from ParseIndex_dual_indices [OF b', of "''core''" "''Widget''" "''v1''"] order c post
  have "lookup3 (ByGroupKindVersion b') ''core'' ''Widget'' ''v1'' =
        lookup3 (ByGroupVersionKind b') ''core'' ''v1'' ''Widget''"
    and "lookup3 (ByGroupVersionKind b') ''core'' ''v1'' ''Widget'' =
          Some (length (b_resources sample_builder) +
                length (filter (IsAPIResource sample_externals) [Widget])) \<and>
        res_Type (b_resources b' !
          (length (b_resources sample_builder) +
           length (filter (IsAPIResource sample_externals) [Widget]))) = Widget2"
    by blast+
  with b' show ?thesis unfolding pre by simp
qed

section \<open>Properties of the struct builder\<close>

lemma split_from_Nil: "split_from sep cur [] = [cur]"
  by (simp add: split_from.simps)

lemma split_from_no_sep:
  "c \<notin> set a \<Longrightarrow> split_from [c] cur (a @ rest) = split_from [c] (cur @ a) rest"
proof (induction a arbitrary: cur)
  case Nil
  then show ?case by simp
next
  case (Cons x a)
  then have "split_from [c] cur ((x # a) @ rest) = split_from [c] (cur @ [x]) (a @ rest)"
    by (subst split_from.simps) auto
  with Cons show ?case by simp
qed

lemma split_from_sep: "split_from [c] cur (c # rest) = cur # split_from [c] [] rest"
  by (subst split_from.simps) simp

lemma strings_Split_two:
  assumes "c \<notin> set a" and "c \<notin> set b"
  shows "strings_Split (a @ c # b) [c] = [a, b]"
proof -
  have "split_from [c] [] (a @ c # b) = split_from [c] a (c # b)"
    using split_from_no_sep [OF assms(1), of "[]" "c # b"] by simp
  also have "\<dots> = a # split_from [c] [] b" by (rule split_from_sep)
  also have "split_from [c] [] b = [b]"
    using split_from_no_sep [OF assms(2), of "[]" "[]"] by (simp add: split_from_Nil)
  finally show ?thesis by (simp add: strings_Split_def)
qed

lemma filepath_Base_last_element:
  assumes "CHR ''/'' \<notin> set e" and "e \<noteq> []"
  shows "filepath_Base (d @ CHR ''/'' # e) = e"
proof -
  from assms(2) obtain x xs where r: "rev e = x # xs" by (cases "rev e") auto
  then have "x \<in> set e" by (metis list.set_intros(1) set_rev)
  with assms(1) have x: "x \<noteq> CHR ''/''" by auto
  have "rev (d @ CHR ''/'' # e) = x # (xs @ CHR ''/'' # rev d)" using r by simp
  then have dw: "dropWhile (\<lambda>c. c = CHR ''/'') (rev (d @ CHR ''/'' # e)) = rev (d @ CHR ''/'' # e)"
    using x by simp
  have "\<And>c. c \<in> set (rev e) \<Longrightarrow> c \<noteq> CHR ''/''" using assms(1) by auto
  from takeWhile_append2 [of "rev e" "\<lambda>c. c \<noteq> CHR ''/''" "CHR ''/'' # rev d", OF this]
  have "takeWhile (\<lambda>c. c \<noteq> CHR ''/'') (rev e @ CHR ''/'' # rev d) = rev e"
    by simp
  then have tw: "takeWhile (\<lambda>c. c \<noteq> CHR ''/'') (rev (d @ CHR ''/'' # e)) = rev e" by simp
  show ?thesis
    unfolding filepath_Base_def Let_def dw rev_rev_ident tw using assms(2) by simp
qed

lemma meta_v1_base:
  assumes "CHR ''/'' \<notin> set name"
  shows "filepath_Base (meta_v1 @ ''.'' @ name) = ''v1.'' @ name"
proof -
  have e: "meta_v1 @ ''.'' @ name = ''k8s.io/apimachinery/pkg/apis/meta'' @ CHR ''/'' # (''v1.'' @ name)"
    by (simp add: meta_v1_def)
  have "CHR ''/'' \<notin> set (''v1.'' @ name)" using assms by simp
  then show ?thesis unfolding e by (rule filepath_Base_last_element) simp
qed

lemma DoType_unversioned_meta:
  assumes "n_Package (t_Name mt) = meta_v1"
    and "CHR ''.'' \<notin> set (n_Name (t_Name mt))" and "CHR ''/'' \<notin> set (n_Name (t_Name mt))"
  shows "DoType_unversioned types mt (filepath_Base (Type_String mt)) uImport uType =
     Inr (''metav1 '' @ [CHR 0x22] @ meta_v1 @ [CHR 0x22], ''metav1.'' @ n_Name (t_Name mt))"
proof -
  have "meta_v1 \<noteq> []" by (simp add: meta_v1_def)
  then have "Type_String mt = meta_v1 @ ''.'' @ n_Name (t_Name mt)"
    using assms(1) by (simp add: Type_String_def Name_String_def)
  then have base: "filepath_Base (Type_String mt) = ''v1'' @ CHR ''.'' # n_Name (t_Name mt)"
    using meta_v1_base [OF assms(3)] by simp
  have parts: "strings_Split (filepath_Base (Type_String mt)) ''.'' = [''v1'', n_Name (t_Name mt)]"
    unfolding base using strings_Split_two [of "CHR ''.''" "''v1''" "n_Name (t_Name mt)"] assms(2)
    by simp
  show ?thesis
    unfolding DoType_unversioned_def Let_def parts using assms(1) by simp
qed

lemma DoType_members_same_or_meta:
  assumes "map (\<lambda>m. deref types (m_Type m)) members = map Some mts"
    and "\<forall>mt\<in>set mts. n_Package (t_Name mt) = n_Package (t_Name t) \<or>
        (n_Package (t_Name mt) = meta_v1 \<and> CHR ''.'' \<notin> set (n_Name (t_Name mt)) \<and>
         CHR ''/'' \<notin> set (n_Name (t_Name mt)))"
  shows "DoType_members X types t members s remaining =
     Inr (s\<lparr>s_Fields := s_Fields s @
            map (\<lambda>(m, mt).
                  \<lparr>f_Name = (if m_Embedded m then [] else m_Name m),
                   f_VersionedPackage = n_Package (t_Name mt),
                   f_UnversionedImport =
                     (if n_Package (t_Name mt) = n_Package (t_Name t) then []
                      else ''metav1 '' @ [CHR 0x22] @ meta_v1 @ [CHR 0x22]),
                   f_UnversionedType =
                     (if n_Package (t_Name mt) = n_Package (t_Name t) then n_Name (t_Name mt)
                      else ''metav1.'' @ n_Name (t_Name mt))\<rparr>)
              (zip members mts)\<rparr>,
          remaining @ filter (\<lambda>mt. \<not> IsPrimitive X mt \<and> GetGroup X mt = GetGroup X t) mts)"
  using assms
proof (induction members arbitrary: mts s remaining)
  case Nil
  then show ?case by simp
next
  case (Cons member members)
  from Cons.prems(1) obtain mt mts' where mts: "mts = mt # mts'"
    and d: "deref types (m_Type member) = Some mt"
    and rest: "map (\<lambda>m. deref types (m_Type m)) members = map Some mts'"
    by (cases mts) auto
  from Cons.prems(2) mts have all: "\<forall>mt\<in>set mts'. n_Package (t_Name mt) = n_Package (t_Name t) \<or>
        (n_Package (t_Name mt) = meta_v1 \<and> CHR ''.'' \<notin> set (n_Name (t_Name mt)) \<and>
         CHR ''/'' \<notin> set (n_Name (t_Name mt)))"
    by simp
  show ?case
  proof (cases "n_Package (t_Name mt) = n_Package (t_Name t)")
    case True
    show ?thesis
      unfolding mts by (simp add: d True Let_def Cons.IH [OF rest all])
  next
    case False
    with Cons.prems(2) mts have m: "n_Package (t_Name mt) = meta_v1"
      "CHR ''.'' \<notin> set (n_Name (t_Name mt))" "CHR ''/'' \<notin> set (n_Name (t_Name mt))"
      by auto
    have ne: "n_Package (t_Name t) \<noteq> meta_v1" "meta_v1 \<noteq> n_Package (t_Name t)"
      using False m(1) by auto
    have u: "DoType_unversioned types mt (filepath_Base (Type_String mt)) [] (n_Name (t_Name mt)) =
        Inr (''metav1 '' @ [CHR 0x22] @ meta_v1 @ [CHR 0x22], ''metav1.'' @ n_Name (t_Name mt))"
      by (rule DoType_unversioned_meta [OF m])
    show ?thesis
      unfolding mts by (simp add: d m(1) ne u Let_def Cons.IH [OF rest all])
  qed
qed

text \<open>
  C8. \<^verbatim>\<open>DoType\<close> on a type each of whose members has a type of the type's own package
  or of \<^verbatim>\<open>k8s.io/apimachinery/pkg/apis/meta/v1\<close> (its name without dot or slash), in any
  order and number, so also with one of each in either order, returns a struct with one
  field for each member, in the order of the members. The field of a same-package
  member keeps the bare name of the member type and has no unversioned import. The
  field of a metadata member has the import
  \<^verbatim>\<open>metav1 "k8s.io/apimachinery/pkg/apis/meta/v1"\<close>, the type \<^verbatim>\<open>metav1.<TypeName>\<close> and the
  versioned package itself. The types to visit are those of the members that are not
  primitive and of the group of the type.
\<close>

theorem DoType_same_package_and_metadata_members:
  assumes derefs: "map (\<lambda>m. deref types (m_Type m)) (t_Members t) = map Some mts"
    and kinds: "\<forall>mt\<in>set mts. n_Package (t_Name mt) = n_Package (t_Name t) \<or>
        (n_Package (t_Name mt) = meta_v1 \<and> CHR ''.'' \<notin> set (n_Name (t_Name mt)) \<and>
         CHR ''/'' \<notin> set (n_Name (t_Name mt)))"
  shows "\<exists>s.
     DoType X types t =
       Inr (s, filter (\<lambda>mt. \<not> IsPrimitive X mt \<and> GetGroup X mt = GetGroup X t) mts) \<and>
     s_Name s = n_Name (t_Name t) \<and>
     s_Fields s =
       map (\<lambda>(m, mt).
             \<lparr>f_Name = (if m_Embedded m then [] else m_Name m),
              f_VersionedPackage = n_Package (t_Name mt),
              f_UnversionedImport =
                (if n_Package (t_Name mt) = n_Package (t_Name t) then []
                 else ''metav1 '' @ [CHR 0x22] @ ''k8s.io/apimachinery/pkg/apis/meta/v1'' @
                      [CHR 0x22]),
              f_UnversionedType =
                (if n_Package (t_Name mt) = n_Package (t_Name t) then n_Name (t_Name mt)
                 else ''metav1.'' @ n_Name (t_Name mt))\<rparr>)
         (zip (t_Members t) mts)"
proof -
  have m: "meta_v1 = ''k8s.io/apimachinery/pkg/apis/meta/v1''" by (simp add: meta_v1_def)
  show ?thesis
    unfolding DoType_def Let_def DoType_members_same_or_meta [OF derefs kinds] m [symmetric]
    by (simp split: if_splits)
qed

theorem DoType_same_package_and_metadata_members_witness:
  "(\<exists>s. DoType sample_externals sample_types Widget = Inr (s, [WidgetStatus]) \<and>
      map f_UnversionedType (s_Fields s) = [''WidgetStatus'', ''metav1.ObjectMeta''] \<and>
      map f_UnversionedImport (s_Fields s) =
        [ [], ''metav1 '' @ [CHR 0x22] @ ''k8s.io/apimachinery/pkg/apis/meta/v1'' @ [CHR 0x22]]) \<and>
   (\<exists>s. DoType sample_externals sample_types Gizmo = Inr (s, [WidgetStatus]) \<and>
      map f_UnversionedType (s_Fields s) = [''metav1.ObjectMeta'', ''WidgetStatus''] \<and>
      map f_UnversionedImport (s_Fields s) =
        [''metav1 '' @ [CHR 0x22] @ ''k8s.io/apimachinery/pkg/apis/meta/v1'' @ [CHR 0x22], []])"
proof -
  have dw: "map (\<lambda>m. deref sample_types (m_Type m)) (t_Members Widget) =
      map Some [WidgetStatus, ObjectMeta]"
    by (simp add: Widget_def deref_def sample_types_def)
  have dg: "map (\<lambda>m. deref sample_types (m_Type m)) (t_Members Gizmo) =
      map Some [ObjectMeta, WidgetStatus]"
    by (simp add: Gizmo_def deref_def sample_types_def)
  have kw: "\<forall>mt\<in>set [WidgetStatus, ObjectMeta].
      n_Package (t_Name mt) = n_Package (t_Name Widget) \<or>
      (n_Package (t_Name mt) = meta_v1 \<and> CHR ''.'' \<notin> set (n_Name (t_Name mt)) \<and>
       CHR ''/'' \<notin> set (n_Name (t_Name mt)))"
    by (simp add: WidgetStatus_def ObjectMeta_def Widget_def)
  have kg: "\<forall>mt\<in>set [ObjectMeta, WidgetStatus].
      n_Package (t_Name mt) = n_Package (t_Name Gizmo) \<or>
      (n_Package (t_Name mt) = meta_v1 \<and> CHR ''.'' \<notin> set (n_Name (t_Name mt)) \<and>
       CHR ''/'' \<notin> set (n_Name (t_Name mt)))"
    by (simp add: WidgetStatus_def ObjectMeta_def Gizmo_def)
  have fw: "filter (\<lambda>mt. \<not> IsPrimitive sample_externals mt \<and>
        GetGroup sample_externals mt = GetGroup sample_externals Widget)
      [WidgetStatus, ObjectMeta] = [WidgetStatus]"
    by code_simp
  have fg: "filter (\<lambda>mt. \<not> IsPrimitive sample_externals mt \<and>
        GetGroup sample_externals mt = GetGroup sample_externals Gizmo)
      [ObjectMeta, WidgetStatus] = [WidgetStatus]"
    by code_simp
  have p: "n_Package (t_Name WidgetStatus) = ''example.com/apis/core/v1''"
    "n_Package (t_Name Widget) = ''example.com/apis/core/v1''"
    "n_Package (t_Name Gizmo) = ''example.com/apis/core/v1''"
    "n_Package (t_Name ObjectMeta) = ''k8s.io/apimachinery/pkg/apis/meta/v1''"
    "n_Name (t_Name WidgetStatus) = ''WidgetStatus''" "n_Name (t_Name ObjectMeta) = ''ObjectMeta''"
    by (simp_all add: WidgetStatus_def ObjectMeta_def Widget_def Gizmo_def meta_v1_def)
  have mw: "t_Members Widget = [\<lparr>m_Name = ''Status'', m_Embedded = False, m_Type = 1\<rparr>,
      \<lparr>m_Name = ''ObjectMeta'', m_Embedded = True, m_Type = 2\<rparr>]"
    by (simp add: Widget_def)
  have mg: "t_Members Gizmo = [\<lparr>m_Name = ''ObjectMeta'', m_Embedded = True, m_Type = 2\<rparr>,
      \<lparr>m_Name = ''Status'', m_Embedded = False, m_Type = 1\<rparr>]"
    by (simp add: Gizmo_def)
  from DoType_same_package_and_metadata_members [OF dw kw, of sample_externals]
  have w: "\<exists>s. DoType sample_externals sample_types Widget = Inr (s, [WidgetStatus]) \<and>
      map f_UnversionedType (s_Fields s) = [''WidgetStatus'', ''metav1.ObjectMeta''] \<and>
      map f_UnversionedImport (s_Fields s) =
        [ [], ''metav1 '' @ [CHR 0x22] @ ''k8s.io/apimachinery/pkg/apis/meta/v1'' @ [CHR 0x22]]"
    unfolding fw mw by (auto simp: p)
  from DoType_same_package_and_metadata_members [OF dg kg, of sample_externals]
  have g: "\<exists>s. DoType sample_externals sample_types Gizmo = Inr (s, [WidgetStatus]) \<and>
      map f_UnversionedType (s_Fields s) = [''metav1.ObjectMeta'', ''WidgetStatus''] \<and>
      map f_UnversionedImport (s_Fields s) =
        [''metav1 '' @ [CHR 0x22] @ ''k8s.io/apimachinery/pkg/apis/meta/v1'' @ [CHR 0x22], []]"
    unfolding fg mg by (auto simp: p)
  from w g show ?thesis by blast
qed

lemma deref_in_set: "deref types r = Some t \<Longrightarrow> t \<in> set types"
  by (auto simp: deref_def split: if_splits)

lemma DoType_members_Inr:
  "DoType_members X types t members s remaining = Inr (s', remaining') \<Longrightarrow>
   s_Name s' = s_Name s \<and> set remaining' \<subseteq> set remaining \<union> set types \<and>
   ((\<forall>m\<in>set members. \<forall>mt. deref types (m_Type m) = Some mt \<longrightarrow>
        IsPrimitive X mt \<or> GetGroup X mt \<noteq> GetGroup X t) \<longrightarrow> remaining' = remaining)"
proof (induction members arbitrary: s remaining)
  case Nil
  then show ?case by simp
next
  case (Cons member members)
  from Cons.prems obtain mt where mt: "deref types (m_Type member) = Some mt"
    by (cases "deref types (m_Type member)") auto
  let ?u = "if n_Package (t_Name t) \<noteq> n_Package (t_Name mt)
            then DoType_unversioned types mt (filepath_Base (Type_String mt)) [] (n_Name (t_Name mt))
            else Inr ([], n_Name (t_Name mt))"
  from Cons.prems mt obtain uImport uType where u: "?u = Inr (uImport, uType)"
    by (cases ?u) (auto simp: Let_def)
  let ?s = "s\<lparr>s_Fields := s_Fields s @
              [\<lparr>f_Name = (if m_Embedded member then [] else m_Name member),
                f_VersionedPackage = n_Package (t_Name mt),
                f_UnversionedImport = uImport, f_UnversionedType = uType\<rparr>]\<rparr>"
  let ?r = "if \<not> IsPrimitive X mt \<and> GetGroup X mt = GetGroup X t
            then remaining @ [mt] else remaining"
  from Cons.prems mt u have rest: "DoType_members X types t members ?s ?r = Inr (s', remaining')"
    by (simp add: Let_def)
  from Cons.IH [OF rest] deref_in_set [OF mt] mt show ?case
    by (auto split: if_splits)
qed

lemma DoType_Inr:
  assumes "DoType X types t = Inr (s, additionalTypes)"
  shows "s_Name s = n_Name (t_Name t) \<and> set additionalTypes \<subseteq> set types \<and>
   ((\<forall>m\<in>set (t_Members t). \<forall>mt. deref types (m_Type m) = Some mt \<longrightarrow>
        IsPrimitive X mt \<or> GetGroup X mt \<noteq> GetGroup X t) \<longrightarrow> additionalTypes = [])"
  using DoType_members_Inr [OF assms [unfolded DoType_def Let_def]]
  by (auto split: if_splits)

lemma ParseStructs_visit_Inr:
  assumes "ParseStructs_visit X types t = Inr (result, additionalTypes)"
  shows "s_Name result = n_Name (t_Name t) \<and> set additionalTypes \<subseteq> set types"
proof -
  from assms obtain s where s: "DoType X types t = Inr (s, additionalTypes)"
    and r: "s_Name result = s_Name s"
    by (cases "DoType X types t") (auto simp: ParseStructs_visit_def Let_def split: if_splits)
  from DoType_Inr [OF s] r show ?thesis by simp
qed

lemma pop_rest_length: "remaining \<noteq> [] \<Longrightarrow> length (pop_rest remaining) < length remaining"
  by (simp add: pop_rest_def)

lemma pop_rest_set: "set (pop_rest remaining) \<subseteq> set remaining"
proof (cases "remaining = []")
  case True
  then show ?thesis by (simp add: pop_rest_def)
next
  case False
  then have "remaining ! (length remaining - 1) \<in> set remaining" by simp
  then have "set (remaining[0 := remaining ! (length remaining - 1)]) \<subseteq> set remaining"
    using set_update_subset_insert [of remaining 0 "remaining ! (length remaining - 1)"] by auto
  then show ?thesis
    unfolding pop_rest_def using in_set_butlastD by fastforce
qed

lemma ParseStructs_loop_Nil:
  "ParseStructs_loop X types [] done structs = Some (Inr structs)"
  by (subst ParseStructs_loop.simps) simp

lemma ParseStructs_loop_skip:
  "remaining \<noteq> [] \<Longrightarrow> n_Name (t_Name (remaining ! 0)) \<in> done \<Longrightarrow>
   ParseStructs_loop X types remaining done structs =
   ParseStructs_loop X types (pop_rest remaining) done structs"
  by (subst ParseStructs_loop.simps) simp

lemma ParseStructs_loop_fail:
  "remaining \<noteq> [] \<Longrightarrow> n_Name (t_Name (remaining ! 0)) \<notin> done \<Longrightarrow>
   ParseStructs_visit X types (remaining ! 0) = Inl e \<Longrightarrow>
   ParseStructs_loop X types remaining done structs = Some (Inl e)"
  by (subst ParseStructs_loop.simps) simp

lemma ParseStructs_loop_visit:
  "remaining \<noteq> [] \<Longrightarrow> n_Name (t_Name (remaining ! 0)) \<notin> done \<Longrightarrow>
   ParseStructs_visit X types (remaining ! 0) = Inr (result, additionalTypes) \<Longrightarrow>
   ParseStructs_loop X types remaining done structs =
   ParseStructs_loop X types (pop_rest remaining @ additionalTypes)
     (insert (n_Name (t_Name (remaining ! 0))) done) (structs @ [result])"
  by (subst ParseStructs_loop.simps) simp

lemma ParseStructs_loop_total:
  assumes fin: "finite A" and types: "set types \<subseteq> A"
  shows "\<forall>remaining done structs.
     card ((\<lambda>t. n_Name (t_Name t)) ` A - done) = n \<longrightarrow> set remaining \<subseteq> A \<longrightarrow>
     (\<exists>r. ParseStructs_loop X types remaining done structs = Some r \<and>
       (\<forall>structs'. r = Inr structs' \<longrightarrow>
          (\<exists>new. structs' = structs @ new \<and> distinct (map s_Name new) \<and>
             set (map s_Name new) \<inter> done = {})))"
proof (induction n rule: less_induct)
  case (less n)
  let ?nm = "\<lambda>t. n_Name (t_Name t)"
  let ?P = "\<lambda>remaining done structs.
     \<exists>r. ParseStructs_loop X types remaining done structs = Some r \<and>
       (\<forall>structs'. r = Inr structs' \<longrightarrow>
          (\<exists>new. structs' = structs @ new \<and> distinct (map s_Name new) \<and>
             set (map s_Name new) \<inter> done = {}))"
  have outer: "?P remaining' done' structs'"
    if "card (?nm ` A - done') < n" "set remaining' \<subseteq> A" for remaining' done' structs'
    using less.IH [OF that(1)] that(2) by blast
  have inner: "\<forall>remaining. length remaining = k \<longrightarrow> set remaining \<subseteq> A \<longrightarrow>
      ?P remaining done structs"
    if card: "card (?nm ` A - done) = n" for k "done" structs
  proof (induction k rule: less_induct)
    case (less k)
    show ?case
    proof (intro allI impI)
      fix remaining :: "Type list"
      assume len: "length remaining = k" and sub: "set remaining \<subseteq> A"
      show "?P remaining done structs"
      proof (cases "remaining = []")
        case True
        have "ParseStructs_loop X types remaining done structs = Some (Inr structs)"
          unfolding True by (rule ParseStructs_loop_Nil)
        then show ?thesis by simp
      next
        case ne: False
        let ?next = "remaining ! 0"
        let ?name = "n_Name (t_Name ?next)"
        show ?thesis
        proof (cases "?name \<in> done")
          case True
          have s: "set (pop_rest remaining) \<subseteq> A" using pop_rest_set [of remaining] sub by blast
          have l: "length (pop_rest remaining) < k" using pop_rest_length [OF ne] len by simp
          from less.IH [OF l] s have "?P (pop_rest remaining) done structs" by blast
          then obtain r where r: "ParseStructs_loop X types (pop_rest remaining) done structs = Some r"
            and q: "\<forall>structs'. r = Inr structs' \<longrightarrow>
              (\<exists>new. structs' = structs @ new \<and> distinct (map s_Name new) \<and>
                 set (map s_Name new) \<inter> done = {})"
            by blast
          have "ParseStructs_loop X types remaining done structs =
              ParseStructs_loop X types (pop_rest remaining) done structs"
            by (rule ParseStructs_loop_skip [OF ne True])
          then have "ParseStructs_loop X types remaining done structs = Some r"
            by (simp only: r)
          with q show ?thesis by blast
        next
          case False
          show ?thesis
          proof (cases "ParseStructs_visit X types ?next")
            case (Inl e)
            have "ParseStructs_loop X types remaining done structs = Some (Inl e)"
              by (rule ParseStructs_loop_fail [OF ne False Inl])
            then show ?thesis by simp
          next
            case (Inr p)
            obtain result additionalTypes where p: "p = (result, additionalTypes)" by (cases p)
            have visit: "ParseStructs_visit X types ?next = Inr (result, additionalTypes)"
              using Inr p by simp
            from ParseStructs_visit_Inr [OF visit] have
              nm: "s_Name result = ?name" and add: "set additionalTypes \<subseteq> set types" by simp_all
            have "?next \<in> set remaining" using ne by simp
            then have "?next \<in> A" using sub by blast
            then have mem: "?name \<in> ?nm ` A - done" using False by blast
            have f: "finite (?nm ` A - done)" using fin by simp
            have eq: "?nm ` A - insert ?name done = (?nm ` A - done) - {?name}" by blast
            have "card ((?nm ` A - done) - {?name}) < card (?nm ` A - done)"
              by (rule card_Diff1_less [OF f mem])
            then have smaller: "card (?nm ` A - insert ?name done) < n"
              by (simp only: eq card)
            have rem: "set (pop_rest remaining @ additionalTypes) \<subseteq> A"
              using pop_rest_set [of remaining] sub add types by auto
            from outer [OF smaller rem, of "structs @ [result]"]
            obtain r where r: "ParseStructs_loop X types (pop_rest remaining @ additionalTypes)
                  (insert ?name done) (structs @ [result]) = Some r"
              and new: "\<forall>structs'. r = Inr structs' \<longrightarrow>
                (\<exists>new. structs' = (structs @ [result]) @ new \<and> distinct (map s_Name new) \<and>
                   set (map s_Name new) \<inter> insert ?name done = {})"
              by blast
            have q: "\<forall>structs'. r = Inr structs' \<longrightarrow>
                (\<exists>new. structs' = structs @ new \<and> distinct (map s_Name new) \<and>
                   set (map s_Name new) \<inter> done = {})"
            proof (intro allI impI)
              fix structs' assume "r = Inr structs'"
              with new obtain new' where
                n': "structs' = (structs @ [result]) @ new'" "distinct (map s_Name new')"
                  "set (map s_Name new') \<inter> insert ?name done = {}"
                by blast
              have a: "structs' = structs @ (result # new')" using n'(1) by simp
              have "s_Name result \<notin> set (map s_Name new')" using n'(3) nm by blast
              then have b: "distinct (map s_Name (result # new'))" using n'(2) by simp
              have "s_Name result \<notin> done" using nm False by simp
              moreover have "set (map s_Name new') \<inter> done = {}" using n'(3) by blast
              ultimately have c: "set (map s_Name (result # new')) \<inter> done = {}" by simp
              from a b c show "\<exists>new. structs' = structs @ new \<and> distinct (map s_Name new) \<and>
                   set (map s_Name new) \<inter> done = {}" by blast
            qed
            have "ParseStructs_loop X types remaining done structs =
                ParseStructs_loop X types (pop_rest remaining @ additionalTypes)
                  (insert ?name done) (structs @ [result])"
              by (rule ParseStructs_loop_visit [OF ne False visit])
            then have "ParseStructs_loop X types remaining done structs = Some r"
              by (simp only: r)
            with q show ?thesis by blast
          qed
        qed
      qed
    qed
  qed
  show ?case using inner by blast
qed

lemma ParseStructs_loop_result:
  "\<exists>r. ParseStructs_loop X types remaining done structs = Some r \<and>
     (\<forall>structs'. r = Inr structs' \<longrightarrow>
        (\<exists>new. structs' = structs @ new \<and> distinct (map s_Name new) \<and>
           set (map s_Name new) \<inter> done = {}))"
proof -
  have "finite (set remaining \<union> set types)" "set types \<subseteq> set remaining \<union> set types"
    "set remaining \<subseteq> set remaining \<union> set types"
    by simp_all
  from ParseStructs_loop_total [OF this(1,2)] this(3) show ?thesis by blast
qed

text \<open>
  C2. The work-list loop of \<^verbatim>\<open>ParseStructs\<close> ends for every store of declarations, every
  work-list, set of visited names and list of structs, and so does \<^verbatim>\<open>ParseStructs\<close>
  (with a failure when it reads a nil pointer, with the structs otherwise). The structs
  it appends have pairwise distinct names, none of them visited before. A popped type
  whose name is visited is skipped: the loop goes on with the rest and the same structs.
  And \<^verbatim>\<open>DoType\<close> on a type whose members are all primitive or of another group returns
  no types to visit.
\<close>

theorem ParseStructs_terminates_once_per_name:
  "(\<exists>r. ParseStructs X types b apigroup = Some r) \<and>
   (\<forall>apigroup'. ParseStructs X types b apigroup = Some (Inr apigroup') \<longrightarrow>
      (\<exists>new. grp_Structs apigroup' = grp_Structs apigroup @ new \<and> distinct (map s_Name new))) \<and>
   (\<exists>r. ParseStructs_loop X types remaining done structs = Some r) \<and>
   (\<forall>structs'. ParseStructs_loop X types remaining done structs = Some (Inr structs') \<longrightarrow>
      (\<exists>new. structs' = structs @ new \<and> distinct (map s_Name new) \<and>
         set (map s_Name new) \<inter> done = {})) \<and>
   (remaining \<noteq> [] \<and> n_Name (t_Name (remaining ! 0)) \<in> done \<longrightarrow>
      ParseStructs_loop X types remaining done structs =
      ParseStructs_loop X types (pop_rest remaining) done structs) \<and>
   (\<forall>s additionalTypes.
      DoType X types t = Inr (s, additionalTypes) \<and>
      (\<forall>m\<in>set (t_Members t). \<forall>mt. deref types (m_Type m) = Some mt \<longrightarrow>
         IsPrimitive X mt \<or> GetGroup X mt \<noteq> GetGroup X t) \<longrightarrow>
      additionalTypes = [])"
proof -
  from ParseStructs_loop_result [of X types "ParseStructs_seed b apigroup" "{}" "grp_Structs apigroup"]
  obtain r0 where r0: "ParseStructs_loop X types (ParseStructs_seed b apigroup) {}
        (grp_Structs apigroup) = Some r0"
    and n0: "\<forall>structs'. r0 = Inr structs' \<longrightarrow>
        (\<exists>new. structs' = grp_Structs apigroup @ new \<and> distinct (map s_Name new))"
    by auto
  have a: "\<exists>r. ParseStructs X types b apigroup = Some r"
    unfolding ParseStructs_def r0 by (cases r0) simp_all
  have b: "\<forall>apigroup'. ParseStructs X types b apigroup = Some (Inr apigroup') \<longrightarrow>
      (\<exists>new. grp_Structs apigroup' = grp_Structs apigroup @ new \<and> distinct (map s_Name new))"
    using n0 unfolding ParseStructs_def r0 by (cases r0) auto
  from ParseStructs_loop_result [of X types remaining "done" structs]
  obtain r where r: "ParseStructs_loop X types remaining done structs = Some r"
    and n: "\<forall>structs'. r = Inr structs' \<longrightarrow>
        (\<exists>new. structs' = structs @ new \<and> distinct (map s_Name new) \<and>
           set (map s_Name new) \<inter> done = {})"
    by auto
  have c: "\<exists>r. ParseStructs_loop X types remaining done structs = Some r" using r by blast
  have d: "\<forall>structs'. ParseStructs_loop X types remaining done structs = Some (Inr structs') \<longrightarrow>
      (\<exists>new. structs' = structs @ new \<and> distinct (map s_Name new) \<and>
         set (map s_Name new) \<inter> done = {})"
    using r n by simp
  have e: "remaining \<noteq> [] \<and> n_Name (t_Name (remaining ! 0)) \<in> done \<longrightarrow>
      ParseStructs_loop X types remaining done structs =
      ParseStructs_loop X types (pop_rest remaining) done structs"
    using ParseStructs_loop_skip by blast
  have f: "\<forall>s additionalTypes.
      DoType X types t = Inr (s, additionalTypes) \<and>
      (\<forall>m\<in>set (t_Members t). \<forall>mt. deref types (m_Type m) = Some mt \<longrightarrow>
         IsPrimitive X mt \<or> GetGroup X mt \<noteq> GetGroup X t) \<longrightarrow>
      additionalTypes = []"
    using DoType_Inr by blast
  show ?thesis by (intro conjI) (rule a b c d e f)+
qed

theorem ParseStructs_terminates_once_per_name_witness:
  "(\<exists>structs'. ParseStructs_loop sample_externals sample_types [Widget, Widget2] {} [] =
        Some (Inr structs') \<and> map s_Name structs' = [''Widget'', ''WidgetStatus'']) \<and>
   ParseStructs_loop sample_externals sample_types [Widget] {''Widget''} [] =
     ParseStructs_loop sample_externals sample_types (pop_rest [Widget]) {''Widget''} [] \<and>
   (\<exists>s. DoType sample_externals sample_types ObjectMeta = Inr (s, []))"
proof -
  have "case ParseStructs_visit sample_externals sample_types Widget of
          Inl e \<Rightarrow> False
        | Inr (r, a) \<Rightarrow> a = [WidgetStatus] \<and> s_Name r = ''Widget''"
    by code_simp
  then obtain r1 where v1: "ParseStructs_visit sample_externals sample_types Widget =
      Inr (r1, [WidgetStatus])" and n1: "s_Name r1 = ''Widget''"
    by (cases "ParseStructs_visit sample_externals sample_types Widget") auto
  have "case ParseStructs_visit sample_externals sample_types WidgetStatus of
          Inl e \<Rightarrow> False
        | Inr (r, a) \<Rightarrow> a = [Widget] \<and> s_Name r = ''WidgetStatus''"
    by code_simp
  then obtain r2 where v2: "ParseStructs_visit sample_externals sample_types WidgetStatus =
      Inr (r2, [Widget])" and n2: "s_Name r2 = ''WidgetStatus''"
    by (cases "ParseStructs_visit sample_externals sample_types WidgetStatus") auto
  have names: "n_Name (t_Name Widget) = ''Widget''" "n_Name (t_Name Widget2) = ''Widget''"
    "n_Name (t_Name WidgetStatus) = ''WidgetStatus''"
    by (simp_all add: Widget_def Widget2_def WidgetStatus_def)
  have s1: "ParseStructs_loop sample_externals sample_types [Widget, Widget2] {} [] =
      ParseStructs_loop sample_externals sample_types [Widget2, WidgetStatus] {''Widget''} [r1]"
    using ParseStructs_loop_visit [of "[Widget, Widget2]" "{}" sample_externals sample_types
        r1 "[WidgetStatus]" "[]"] v1
    by (simp add: names pop_rest_def)
  have s2: "ParseStructs_loop sample_externals sample_types [Widget2, WidgetStatus] {''Widget''} [r1] =
      ParseStructs_loop sample_externals sample_types [WidgetStatus] {''Widget''} [r1]"
    using ParseStructs_loop_skip [of "[Widget2, WidgetStatus]" "{''Widget''}" sample_externals
        sample_types "[r1]"]
    by (simp add: names pop_rest_def)
  have s3: "ParseStructs_loop sample_externals sample_types [WidgetStatus] {''Widget''} [r1] =
      ParseStructs_loop sample_externals sample_types [Widget] {''WidgetStatus'', ''Widget''} [r1, r2]"
    using ParseStructs_loop_visit [of "[WidgetStatus]" "{''Widget''}" sample_externals sample_types
        r2 "[Widget]" "[r1]"] v2
    by (simp add: names pop_rest_def)
  have s4: "ParseStructs_loop sample_externals sample_types [Widget] {''WidgetStatus'', ''Widget''}
        [r1, r2] = Some (Inr [r1, r2])"
    using ParseStructs_loop_skip [of "[Widget]" "{''WidgetStatus'', ''Widget''}" sample_externals
        sample_types "[r1, r2]"]
    by (simp add: names pop_rest_def ParseStructs_loop_Nil)
  have run: "ParseStructs_loop sample_externals sample_types [Widget, Widget2] {} [] =
      Some (Inr [r1, r2])"
    unfolding s1 s2 s3 s4 ..
  have skip: "[Widget] \<noteq> [] \<and> n_Name (t_Name ([Widget] ! 0)) \<in> {''Widget''}"
    by (simp add: names)
  have prim: "\<forall>m\<in>set (t_Members ObjectMeta). \<forall>mt. deref sample_types (m_Type m) = Some mt \<longrightarrow>
      IsPrimitive sample_externals mt \<or>
      GetGroup sample_externals mt \<noteq> GetGroup sample_externals ObjectMeta"
    by (simp add: ObjectMeta_def deref_def sample_types_def sample_externals_def int_type_def)
  have "case DoType sample_externals sample_types ObjectMeta of Inl e \<Rightarrow> False | Inr p \<Rightarrow> True"
    by code_simp
  then obtain s0 a0 where d: "DoType sample_externals sample_types ObjectMeta = Inr (s0, a0)"
    by (cases "DoType sample_externals sample_types ObjectMeta") auto
  from ParseStructs_terminates_once_per_name [of sample_externals sample_types _ _
      "[Widget, Widget2]" "{}" "[]" ObjectMeta] run
  have one: "\<exists>new. [r1, r2] = [] @ new \<and> distinct (map s_Name new)" by blast
  from ParseStructs_terminates_once_per_name [of sample_externals sample_types _ _
      "[Widget]" "{''Widget''}" "[]" ObjectMeta] skip
  have two: "ParseStructs_loop sample_externals sample_types [Widget] {''Widget''} [] =
     ParseStructs_loop sample_externals sample_types (pop_rest [Widget]) {''Widget''} []"
    by blast
  from ParseStructs_terminates_once_per_name [of sample_externals sample_types _ _
      "[]" "{}" "[]" ObjectMeta] d prim have three: "a0 = []" by blast
  from run n1 n2 one two three d show ?thesis by auto
qed

end
